theory Spec2Isabelle
  imports Main "HOL-Library.AList" "HOL-Library.Multiset" "HOL-Library.Product_Lexorder"
begin

section \<open>Python string primitives used by the metadata reconciliation\<close>

text \<open>
  File names are modelled as \<^typ>\<open>string\<close>; the characters considered are the ASCII ones
  that task identifiers and sanitised ISO timestamps are made of.  Every function below
  is the builtin of the same name, restricted to the way
  \<^verbatim>\<open>recreate_metadata_card\<close> calls it (a non-empty search string, a
  one-character separator).
\<close>

text \<open>\<^verbatim>\<open>s.startswith(p)\<close>\<close>

fun startswith :: "string \<Rightarrow> string \<Rightarrow> bool" where
  "startswith s [] = True"
| "startswith [] (p # ps) = False"
| "startswith (c # cs) (p # ps) = (c = p \<and> startswith cs ps)"

text \<open>\<^verbatim>\<open>sub in s\<close>\<close>

fun contains :: "string \<Rightarrow> string \<Rightarrow> bool" where
  "contains sub [] = (sub = [])"
| "contains sub (c # cs) = (startswith (c # cs) sub \<or> contains sub cs)"

text \<open>\<^verbatim>\<open>s.replace(old, new)\<close> for a non-empty \<open>old\<close>: leftmost, non-overlapping.\<close>

fun py_replace :: "string \<Rightarrow> string \<Rightarrow> string \<Rightarrow> string" where
  "py_replace old new [] = []"
| "py_replace old new (c # cs) =
     (if startswith (c # cs) old
      then new @ py_replace old new (drop (length old - 1) cs)
      else c # py_replace old new cs)"

text \<open>\<^verbatim>\<open>s.split(sep)[0]\<close> for a non-empty \<open>sep\<close>: everything before its first occurrence.\<close>

fun split_first :: "string \<Rightarrow> string \<Rightarrow> string" where
  "split_first sep [] = []"
| "split_first sep (c # cs) =
     (if startswith (c # cs) sep then [] else c # split_first sep cs)"

text \<open>\<^verbatim>\<open>s.split(sep)\<close> for a one-character \<open>sep\<close>.\<close>

fun split_char :: "char \<Rightarrow> string \<Rightarrow> string list" where
  "split_char sep [] = [[]]"
| "split_char sep (c # cs) =
     (if c = sep then [] # split_char sep cs
      else (case split_char sep cs of
              [] \<Rightarrow> [[c]]
            | p # ps \<Rightarrow> (c # p) # ps))"

text \<open>\<^verbatim>\<open>s.split(sep, n)\<close> and \<^verbatim>\<open>s.rsplit(sep, n)\<close> for a one-character \<open>sep\<close>.\<close>

fun split_max :: "char \<Rightarrow> nat \<Rightarrow> string \<Rightarrow> string list" where
  "split_max sep 0 s = [s]"
| "split_max sep (Suc n) s =
     (if sep \<in> set s
      then takeWhile (\<lambda>c. c \<noteq> sep) s # split_max sep n (tl (dropWhile (\<lambda>c. c \<noteq> sep) s))
      else [s])"

definition rsplit :: "char \<Rightarrow> nat \<Rightarrow> string \<Rightarrow> string list" where
  "rsplit sep n s = rev (map rev (split_max sep n (rev s)))"

text \<open>\<^verbatim>\<open>sep.join(pieces)\<close>\<close>

fun join :: "string \<Rightarrow> string list \<Rightarrow> string" where
  "join sep [] = []"
| "join sep [p] = p"
| "join sep (p # q # ps) = p @ sep @ join sep (q # ps)"

text \<open>\<^verbatim>\<open>os.path.basename\<close> and \<^verbatim>\<open>os.path.dirname\<close> (posixpath).\<close>

definition basename :: "string \<Rightarrow> string" where
  "basename p = rev (takeWhile (\<lambda>c. c \<noteq> CHR ''/'') (rev p))"

definition dirname :: "string \<Rightarrow> string" where
  "dirname p =
     (let head = rev (dropWhile (\<lambda>c. c \<noteq> CHR ''/'') (rev p))
      in if head \<noteq> [] \<and> filter (\<lambda>c. c \<noteq> CHR ''/'') head \<noteq> []
         then rev (dropWhile (\<lambda>c. c = CHR ''/'') (rev head))
         else head)"

definition is_digit :: "char \<Rightarrow> bool" where
  "is_digit c = (let n = (of_char c :: int) in 48 \<le> n \<and> n \<le> 57)"

text \<open>The regular-expression class \<^verbatim>\<open>\w\<close> on ASCII: letters, digits and the underscore.\<close>

definition is_word :: "char \<Rightarrow> bool" where
  "is_word c =
     (let n = (of_char c :: int)
      in (48 \<le> n \<and> n \<le> 57) \<or> (65 \<le> n \<and> n \<le> 90) \<or> n = 95 \<or> (97 \<le> n \<and> n \<le> 122))"

text \<open>\<^verbatim>\<open>re.sub(r"\W", "_", s)\<close> and \<^verbatim>\<open>re.sub(r"[^\w\.]", "_", s)\<close>\<close>

definition sub_nonword :: "string \<Rightarrow> string" where
  "sub_nonword s = map (\<lambda>c. if is_word c then c else CHR ''_'') s"

definition sub_nonword_dot :: "string \<Rightarrow> string" where
  "sub_nonword_dot s = map (\<lambda>c. if is_word c \<or> c = CHR ''.'' then c else CHR ''_'') s"

section \<open>Python exceptions and naive datetimes\<close>

datatype error = ValueError | KeyError | IndexError | UnboundLocalError

record datetime =
  year :: int
  month :: int
  day :: int
  hour :: int
  minute :: int
  second :: int
  microsecond :: int

definition is_leap :: "int \<Rightarrow> bool" where
  "is_leap y = (y mod 4 = 0 \<and> (0 < y mod 100 \<or> y mod 400 = 0))"

definition days_in_month :: "int \<Rightarrow> int \<Rightarrow> int" where
  "days_in_month y m =
     (if m = 2 then (if is_leap y then 29 else 28)
      else if m = 4 \<or> m = 6 \<or> m = 9 \<or> m = 11 then 30 else 31)"

text \<open>The range checks of the \<^verbatim>\<open>datetime\<close> constructor.\<close>

definition valid_datetime :: "datetime \<Rightarrow> bool" where
  "valid_datetime d =
     (1 \<le> year d \<and> year d \<le> 9999 \<and> 1 \<le> month d \<and> month d \<le> 12 \<and>
      1 \<le> day d \<and> day d \<le> days_in_month (year d) (month d) \<and>
      0 \<le> hour d \<and> hour d < 24 \<and> 0 \<le> minute d \<and> minute d < 60 \<and>
      0 \<le> second d \<and> second d < 60 \<and> 0 \<le> microsecond d \<and> microsecond d < 1000000)"

definition digit_val :: "char \<Rightarrow> int" where
  "digit_val c = of_char c - 48"

definition parse_digits :: "string \<Rightarrow> int option" where
  "parse_digits s =
     (if s \<noteq> [] \<and> list_all is_digit s
      then Some (foldl (\<lambda>a c. 10 * a + digit_val c) 0 s) else None)"

definition parse_date :: "string \<Rightarrow> (int \<times> int \<times> int) option" where
  "parse_date s =
     (if length s = 10 \<and> s ! 4 = CHR ''-'' \<and> s ! 7 = CHR ''-''
      then (case (parse_digits (take 4 s), parse_digits (take 2 (drop 5 s)),
                  parse_digits (drop 8 s)) of
              (Some y, Some m, Some d) \<Rightarrow> Some (y, m, d)
            | _ \<Rightarrow> None)
      else None)"

definition parse_time :: "string \<Rightarrow> (int \<times> int \<times> int \<times> int) option" where
  "parse_time t =
     (let n = length t;
          hh = parse_digits (take 2 t);
          mm = (if 5 \<le> n
                then (if t ! 2 = CHR '':'' then parse_digits (take 2 (drop 3 t)) else None)
                else Some 0);
          ss = (if 8 \<le> n
                then (if t ! 5 = CHR '':'' then parse_digits (take 2 (drop 6 t)) else None)
                else Some 0);
          ff = (if n = 12
                then (if t ! 8 = CHR ''.''
                      then map_option (\<lambda>f. f * 1000) (parse_digits (drop 9 t)) else None)
                else if n = 15
                then (if t ! 8 = CHR ''.'' then parse_digits (drop 9 t) else None)
                else Some 0)
      in if n = 2 \<or> n = 5 \<or> n = 8 \<or> n = 12 \<or> n = 15
         then (case (hh, mm, ss, ff) of
                 (Some h, Some m, Some s, Some f) \<Rightarrow> Some (h, m, s, f)
               | _ \<Rightarrow> None)
         else None)"

text \<open>
  \<^verbatim>\<open>datetime.fromisoformat\<close> is standard-library code.  It is modelled on the format
  that every supported interpreter accepts for naive values,
  \<^verbatim>\<open>YYYY-MM-DD[*HH[:MM[:SS[.fff[fff]]]]]\<close>, with the constructor's range checks;
  anything else is a \<^verbatim>\<open>ValueError\<close>.
\<close>

definition fromisoformat :: "string \<Rightarrow> error + datetime" where
  "fromisoformat s =
     (case parse_date (take 10 s) of
        None \<Rightarrow> Inl ValueError
      | Some (y, m, d) \<Rightarrow>
          (case (if length s = 10 then Some (0, 0, 0, 0) else parse_time (drop 11 s)) of
             None \<Rightarrow> Inl ValueError
           | Some (h, mi, sec, us) \<Rightarrow>
               (let dt = \<lparr>year = y, month = m, day = d, hour = h, minute = mi,
                           second = sec, microsecond = us\<rparr>
                in if valid_datetime dt then Inr dt else Inl ValueError)))"

definition digit_char :: "int \<Rightarrow> char" where
  "digit_char n = char_of (48 + n mod 10)"

definition pad2 :: "int \<Rightarrow> string" where
  "pad2 n = [digit_char (n div 10), digit_char n]"

definition pad4 :: "int \<Rightarrow> string" where
  "pad4 n = [digit_char (n div 1000), digit_char (n div 100), digit_char (n div 10),
             digit_char n]"

definition pad6 :: "int \<Rightarrow> string" where
  "pad6 n = [digit_char (n div 100000), digit_char (n div 10000), digit_char (n div 1000),
             digit_char (n div 100), digit_char (n div 10), digit_char n]"

text \<open>
  \<^verbatim>\<open>datetime.isoformat()\<close> of a naive value: \<^verbatim>\<open>YYYY-MM-DDTHH:MM:SS\<close>, followed by
  \<^verbatim>\<open>.ffffff\<close> only when the microsecond is not zero.
\<close>

definition isoformat :: "datetime \<Rightarrow> string" where
  "isoformat d =
     pad4 (year d) @ ''-'' @ pad2 (month d) @ ''-'' @ pad2 (day d) @ ''T'' @
     pad2 (hour d) @ '':'' @ pad2 (minute d) @ '':'' @ pad2 (second d) @
     (if microsecond d = 0 then [] else ''.'' @ pad6 (microsecond d))"

text \<open>Naive datetimes compare field by field, the year first.\<close>

definition dt_key :: "datetime \<Rightarrow> int \<times> int \<times> int \<times> int \<times> int \<times> int \<times> int" where
  "dt_key d = (year d, month d, day d, hour d, minute d, second d, microsecond d)"

definition dt_less :: "datetime \<Rightarrow> datetime \<Rightarrow> bool" where
  "dt_less a b = (dt_key a < dt_key b)"

text \<open>\<^verbatim>\<open>max(a, b)\<close>: the first argument unless the second is greater.\<close>

definition dt_max :: "datetime \<Rightarrow> datetime \<Rightarrow> datetime" where
  "dt_max a b = (if dt_less a b then b else a)"

section \<open>The configuration built by \<^verbatim>\<open>recreate_metadata_card\<close>\<close>

text \<open>
  One element of a config's \<^verbatim>\<open>data_files\<close> list: the dictionary
  \<^verbatim>\<open>{"split": ..., "path": [...]}\<close>.
\<close>

record data_file =
  split :: string
  path :: "string list"

text \<open>
  \<^verbatim>\<open>card_metadata\<close> and \<^verbatim>\<open>last_eval_date_results\<close> are dictionaries; a dictionary
  keeps its keys in insertion order, so both are association lists written with
  \<^const>\<open>AList.update\<close> (an existing key keeps its place, a new one goes last) and read
  with \<^const>\<open>map_of\<close>.  A config is modelled by its \<^verbatim>\<open>data_files\<close> list.
\<close>

type_synonym card = "(string \<times> data_file list) list"

text \<open>
  The second loop's state: the card, and whether the local variable
  \<^verbatim>\<open>former_entry\<close> has been assigned yet (the message of the
  \<^verbatim>\<open>ValueError\<close> of line 371 reads it).
\<close>

record loop_state =
  card_metadata :: card
  former_entry_bound :: bool

subsection \<open>First loop (lines 307--329): the last evaluation date of every task\<close>

definition first_task_name :: "string \<Rightarrow> string" where
  "first_task_name sub_file =
     split_first ''_202'' (py_replace ''details_'' [] (basename sub_file))"

definition first_loop_body ::
    "(string \<times> datetime) list \<Rightarrow> string \<Rightarrow> error + (string \<times> datetime) list" where
  "first_loop_body last_eval_date_results sub_file =
     (if contains ''results_'' sub_file then Inr last_eval_date_results
      else
        (let task_name = first_task_name sub_file;
             dir_name = dirname sub_file;
             iso_date = join '':'' (rsplit (CHR ''-'') 2 dir_name)
         in case fromisoformat iso_date of
              Inl e \<Rightarrow> Inl e
            | Inr eval_date \<Rightarrow>
                Inr (AList.update task_name
                       (case map_of last_eval_date_results task_name of
                          Some d \<Rightarrow> dt_max d eval_date
                        | None \<Rightarrow> eval_date)
                       last_eval_date_results)))"

fun first_loop ::
    "(string \<times> datetime) list \<Rightarrow> string list \<Rightarrow> error + (string \<times> datetime) list" where
  "first_loop last_eval_date_results [] = Inr last_eval_date_results"
| "first_loop last_eval_date_results (sub_file # rest) =
     (case first_loop_body last_eval_date_results sub_file of
        Inl e \<Rightarrow> Inl e
      | Inr r \<Rightarrow> first_loop r rest)"

text \<open>
  Lines 331--337: the overall maximum, started from the first value of the dictionary
  (an \<^verbatim>\<open>IndexError\<close> when there is none).
\<close>

definition max_last_eval_date :: "(string \<times> datetime) list \<Rightarrow> error + datetime" where
  "max_last_eval_date last_eval_date_results =
     (case last_eval_date_results of
        [] \<Rightarrow> Inl IndexError
      | (t0, d0) # rest \<Rightarrow>
          Inr (foldl (\<lambda>m (t, d). if dt_less m d then d else m) d0 last_eval_date_results))"

definition iso_dates :: "(string \<times> datetime) list \<Rightarrow> (string \<times> string) list" where
  "iso_dates last_eval_date_results = map (\<lambda>(t, d). (t, isoformat d)) last_eval_date_results"

subsection \<open>Second loop (lines 343--441): the configs\<close>

definition second_task_name :: "string \<Rightarrow> string" where
  "second_task_name sub_file =
     split_first ''_2024'' (split_first ''_2023'' (py_replace ''details_'' [] (basename sub_file)))"

text \<open>
  Lines 358--382: the entry of this file in the config \<open>sanitized_task\<close>, and the
  \<^verbatim>\<open>latest\<close> entry when the file's date is the last one.
\<close>

definition add_entry ::
    "bool \<Rightarrow> string \<Rightarrow> string \<Rightarrow> string \<Rightarrow> string \<Rightarrow> loop_state \<Rightarrow> error + loop_state" where
  "add_entry multiple_results sanitized_task sanitized_eval_date
       sanitized_last_eval_date_results repo_file_name st =
     (let entry = \<lparr>split = sanitized_eval_date, path = [repo_file_name]\<rparr>;
          latest = \<lparr>split = ''latest'', path = [repo_file_name]\<rparr>;
          former = map_of (card_metadata st) sanitized_task
      in if \<not> multiple_results \<and> former \<noteq> None
         then Inl (if former_entry_bound st then ValueError else UnboundLocalError)
         else
           (let data_files = (case former of None \<Rightarrow> [entry] | Some fe \<Rightarrow> fe @ [entry]);
                bound = (former_entry_bound st \<or> (multiple_results \<and> former \<noteq> None));
                card1 = AList.update sanitized_task data_files (card_metadata st);
                card2 = (if sanitized_eval_date = sanitized_last_eval_date_results
                         then AList.update sanitized_task (data_files @ [latest]) card1
                         else card1)
            in Inr \<lparr>card_metadata = card2, former_entry_bound = bound\<rparr>))"

text \<open>
  \<^verbatim>\<open>next(index for index, dictionary in enumerate(former_entry)
  if dictionary.get("split", None) == name)\<close>, with \<open>None\<close> for \<^verbatim>\<open>StopIteration\<close>.
\<close>

fun split_index :: "string \<Rightarrow> data_file list \<Rightarrow> nat option" where
  "split_index name [] = None"
| "split_index name (d # ds) =
     (if split d = name then Some 0 else map_option Suc (split_index name ds))"

text \<open>Lines 408--423 and 427--441: extend the split's path list, or append a new split.\<close>

definition extend_split :: "string \<Rightarrow> string \<Rightarrow> data_file list \<Rightarrow> data_file list" where
  "extend_split name repo_file_name former_entry =
     (case split_index name former_entry of
        None \<Rightarrow> former_entry @ [\<lparr>split = name, path = [repo_file_name]\<rparr>]
      | Some i \<Rightarrow>
          former_entry[i := (former_entry ! i)
                              \<lparr>path := path (former_entry ! i) @ [repo_file_name]\<rparr>])"

definition SPECIAL_TASKS :: "string list" where
  "SPECIAL_TASKS = [''lighteval|mmlu'', ''original|mmlu'']"

text \<open>Lines 394--401: the name of the special config, with the few-shot suffix.\<close>

definition special_task_name :: "string \<Rightarrow> string \<Rightarrow> string" where
  "special_task_name special_task task_name =
     (let sanitized_special_task = sub_nonword special_task;
          task_info = split_char (CHR ''|'') task_name
      in if length task_info = 3
         then sanitized_special_task @ ''_'' @ task_info ! 2
         else if length task_info = 4
         then sanitized_special_task @ ''_'' @ task_info ! 2 @ ''_'' @ task_info ! 3
         else sanitized_special_task)"

definition special_task_body ::
    "string \<Rightarrow> string \<Rightarrow> string \<Rightarrow> string \<Rightarrow> string \<Rightarrow> string \<Rightarrow> loop_state \<Rightarrow> loop_state" where
  "special_task_body task_name sanitized_task sanitized_eval_date
       sanitized_last_eval_date_results repo_file_name special_task st =
     (if contains (sub_nonword special_task) sanitized_task
      then
        (let sanitized_special_task = special_task_name special_task task_name;
             former = map_of (card_metadata st) sanitized_special_task;
             data_files =
               (case former of
                  None \<Rightarrow> [\<lparr>split = sanitized_eval_date, path = [repo_file_name]\<rparr>]
                | Some fe \<Rightarrow> extend_split sanitized_eval_date repo_file_name fe);
             card1 = AList.update sanitized_special_task data_files (card_metadata st);
             is_last = (sanitized_eval_date = sanitized_last_eval_date_results);
             card2 = (if is_last
                      then AList.update sanitized_special_task
                             (extend_split ''latest'' repo_file_name data_files) card1
                      else card1)
         in \<lparr>card_metadata = card2,
             former_entry_bound = (former_entry_bound st \<or> former \<noteq> None \<or> is_last)\<rparr>)
      else st)"

definition second_loop_body ::
    "bool \<Rightarrow> (string \<times> string) list \<Rightarrow> string \<Rightarrow> loop_state \<Rightarrow> string \<Rightarrow> error + loop_state" where
  "second_loop_body multiple_results last_eval_date_results max_last_eval_date_results
       st sub_file =
     (if contains ''results_'' sub_file
      then
        (let eval_date = py_replace ''.parquet'' [] (py_replace ''results_'' [] (basename sub_file));
             sanitized_task = ''results'';
             sanitized_last_eval_date_results = sub_nonword_dot max_last_eval_date_results;
             repo_file_name = basename sub_file;
             sanitized_eval_date = sub_nonword_dot eval_date
         in add_entry multiple_results sanitized_task sanitized_eval_date
              sanitized_last_eval_date_results repo_file_name st)
      else
        (let task_name = second_task_name sub_file;
             sanitized_task = sub_nonword task_name;
             eval_date = dirname sub_file
         in case map_of last_eval_date_results task_name of
              None \<Rightarrow> Inl KeyError
            | Some last_date \<Rightarrow>
                (let sanitized_last_eval_date_results = sub_nonword_dot last_date;
                     repo_file_name = ''**/'' @ basename sub_file;
                     sanitized_eval_date = sub_nonword_dot eval_date
                 in case add_entry multiple_results sanitized_task sanitized_eval_date
                           sanitized_last_eval_date_results repo_file_name st of
                      Inl e \<Rightarrow> Inl e
                    | Inr st1 \<Rightarrow>
                        Inr (fold (special_task_body task_name sanitized_task
                                     sanitized_eval_date sanitized_last_eval_date_results
                                     repo_file_name)
                               SPECIAL_TASKS st1))))"

fun second_loop ::
    "bool \<Rightarrow> (string \<times> string) list \<Rightarrow> string \<Rightarrow> loop_state \<Rightarrow> string list \<Rightarrow> error + loop_state" where
  "second_loop multiple_results last_eval_date_results max_last_eval_date_results st [] = Inr st"
| "second_loop multiple_results last_eval_date_results max_last_eval_date_results st
       (sub_file # rest) =
     (case second_loop_body multiple_results last_eval_date_results
             max_last_eval_date_results st sub_file of
        Inl e \<Rightarrow> Inl e
      | Inr st1 \<Rightarrow>
          second_loop multiple_results last_eval_date_results max_last_eval_date_results st1 rest)"

subsection \<open>The whole configuration building (lines 301--441)\<close>

definition build_configs :: "bool \<Rightarrow> string list \<Rightarrow> error + card" where
  "build_configs multiple_results parquet_files =
     (case first_loop [] parquet_files of
        Inl e \<Rightarrow> Inl e
      | Inr last_eval_date_results \<Rightarrow>
          (case max_last_eval_date last_eval_date_results of
             Inl e \<Rightarrow> Inl e
           | Inr max_date \<Rightarrow>
               (case second_loop multiple_results (iso_dates last_eval_date_results)
                       (isoformat max_date)
                       \<lparr>card_metadata = [], former_entry_bound = False\<rparr> parquet_files of
                  Inl e \<Rightarrow> Inl e
                | Inr st \<Rightarrow> Inr (card_metadata st))))"

text \<open>
  \<^verbatim>\<open>recreate_metadata_card\<close> up to the end of its second loop, as a function of the
  listing \<^verbatim>\<open>files_in_repo\<close>: the result is \<^verbatim>\<open>card_metadata\<close>, or the exception
  that left the function.  The text of the card and its upload (lines 443 and
  after) are not part of the model.
\<close>

definition recreate_metadata_card :: "string list \<Rightarrow> error + card" where
  "recreate_metadata_card files_in_repo =
     (let results_files = filter (contains ''.json'') files_in_repo;
          parquet_files = filter (contains ''.parquet'') files_in_repo;
          multiple_results = (1 < length results_files)
      in build_configs multiple_results parquet_files)"

text \<open>
  The details files that reach the body of the loop over \<^verbatim>\<open>SPECIAL_TASKS\<close> (line 395):
  apart from line 364, which only runs under \<^verbatim>\<open>multiple_results\<close>, lines 407 and 426
  are the only assignments of \<^verbatim>\<open>former_entry\<close>.
\<close>

definition special_file :: "string \<Rightarrow> bool" where
  "special_file sub_file =
     (\<not> contains ''results_'' sub_file \<and>
      list_ex (\<lambda>special_task.
          contains (sub_nonword special_task) (sub_nonword (second_task_name sub_file)))
        SPECIAL_TASKS)"

section \<open>Example listings\<close>

text \<open>
  The files of a details repository after two runs, of January and of February 2024,
  that evaluated the task \<^verbatim>\<open>mmlu:us_history\<close>.
\<close>

definition results_jan_json :: string where
  "results_jan_json = ''results_2024-01-15T10-00-00.123456.json''"

definition results_jan_parquet :: string where
  "results_jan_parquet = ''results_2024-01-15T10-00-00.123456.parquet''"

definition results_feb_json :: string where
  "results_feb_json = ''results_2024-02-15T10-00-00.123456.json''"

definition results_feb_parquet :: string where
  "results_feb_parquet = ''results_2024-02-15T10-00-00.123456.parquet''"

definition details_jan :: string where
  "details_jan =
     ''2024-01-15T10-00-00.123456/details_mmlu:us_history_2024-01-15T10-00-00.123456.parquet''"

definition details_feb :: string where
  "details_feb =
     ''2024-02-15T10-00-00.123456/details_mmlu:us_history_2024-02-15T10-00-00.123456.parquet''"

definition entry_jan :: data_file where
  "entry_jan = \<lparr>split = ''2024_01_15T10_00_00.123456'',
       path = [''**/details_mmlu:us_history_2024-01-15T10-00-00.123456.parquet'']\<rparr>"

definition entry_feb :: data_file where
  "entry_feb = \<lparr>split = ''2024_02_15T10_00_00.123456'',
       path = [''**/details_mmlu:us_history_2024-02-15T10-00-00.123456.parquet'']\<rparr>"

definition latest_feb :: data_file where
  "latest_feb = \<lparr>split = ''latest'',
       path = [''**/details_mmlu:us_history_2024-02-15T10-00-00.123456.parquet'']\<rparr>"

text \<open>Two parquet shards of one task in the directory of one run.\<close>

definition shard_0 :: string where
  "shard_0 =
     ''2024-01-15T10-00-00.123456/details_mmlu:us_history_2024-01-15T10-00-00.123456-00000-of-00002.parquet''"

definition shard_1 :: string where
  "shard_1 =
     ''2024-01-15T10-00-00.123456/details_mmlu:us_history_2024-01-15T10-00-00.123456-00001-of-00002.parquet''"

section \<open>The run identifier written by \<^verbatim>\<open>save\<close>\<close>

text \<open>
  Line 149: \<^verbatim>\<open>date_id = datetime.now().isoformat().replace(":", "-")\<close>, the name of the
  run's directory and the suffix of its files.
\<close>

definition date_id :: "datetime \<Rightarrow> string" where
  "date_id now = py_replace '':'' ''-'' (isoformat now)"

definition leap_day_run :: datetime where
  "leap_day_run = \<lparr>year = 2024, month = 2, day = 29, hour = 23, minute = 59, second = 7,
                     microsecond = 4200\<rparr>"

text \<open>The datetimes of these runs, and a details file of a run of 2025.\<close>

definition run_jan :: datetime where
  "run_jan = \<lparr>year = 2024, month = 1, day = 15, hour = 10, minute = 0, second = 0,
                microsecond = 123456\<rparr>"

definition details_2025 :: string where
  "details_2025 =
     ''2025-03-01T09-30-00.500000/details_mmlu:us_history_2025-03-01T09-30-00.500000.parquet''"

definition run_2025 :: datetime where
  "run_2025 = \<lparr>year = 2025, month = 3, day = 1, hour = 9, minute = 30, second = 0,
                 microsecond = 500000\<rparr>"

text \<open>
  A details file dated 2030, and one of 2025 whose task name itself contains
  \<^verbatim>\<open>_2024\<close>.
\<close>

definition details_2030 :: string where
  "details_2030 =
     ''2030-01-15T10-00-00.123456/details_arc:easy_2030-01-15T10-00-00.123456.parquet''"

definition details_aime_2025 :: string where
  "details_aime_2025 =
     ''2025-03-01T09-30-00.500000/details_lighteval|aime_2024|0_2025-03-01T09-30-00.500000.parquet''"

section \<open>Views of a card and of a listing\<close>

text \<open>
  What a card offers under a config name and a split name: the paths of all the entries
  of that config that carry that split name, as a multiset.
\<close>

definition config_entries :: "card \<Rightarrow> string \<Rightarrow> data_file list" where
  "config_entries c config = (case map_of c config of None \<Rightarrow> [] | Some ds \<Rightarrow> ds)"

definition split_paths :: "data_file list \<Rightarrow> string \<Rightarrow> string multiset" where
  "split_paths ds name = mset (concat (map path (filter (\<lambda>d. split d = name) ds)))"

definition paths_of :: "card \<Rightarrow> string \<Rightarrow> string \<Rightarrow> string multiset" where
  "paths_of c config name = split_paths (config_entries c config) name"

text \<open>
  The paths that one entry (lines 358--382, or 402--441 for a special config) adds
  under the split \<open>name\<close>, and the paths that one file of the second loop adds to the
  config \<open>config\<close> under the split \<open>name\<close>.
\<close>

definition entry_paths :: "string \<Rightarrow> string \<Rightarrow> string \<Rightarrow> string \<Rightarrow> string multiset" where
  "entry_paths sanitized_eval_date sanitized_last repo_file_name name =
     (if name = sanitized_eval_date then {#repo_file_name#} else {#}) +
     (if sanitized_eval_date = sanitized_last \<and> name = ''latest'' then {#repo_file_name#}
      else {#})"

definition file_paths ::
    "(string \<times> string) list \<Rightarrow> string \<Rightarrow> string \<Rightarrow> string \<Rightarrow> string \<Rightarrow> string multiset" where
  "file_paths reg mx f config name =
     (if contains ''results_'' f
      then (if config = ''results''
            then entry_paths
                   (sub_nonword_dot
                      (py_replace ''.parquet'' [] (py_replace ''results_'' [] (basename f))))
                   (sub_nonword_dot mx) (basename f) name
            else {#})
      else (case map_of reg (second_task_name f) of
              None \<Rightarrow> {#}
            | Some last_date \<Rightarrow>
                (\<Sum>c \<leftarrow> sub_nonword (second_task_name f) #
                        map (\<lambda>sp. special_task_name sp (second_task_name f))
                          (filter (\<lambda>sp. contains (sub_nonword sp)
                                     (sub_nonword (second_task_name f))) SPECIAL_TASKS).
                   if config = c
                   then entry_paths (sub_nonword_dot (dirname f)) (sub_nonword_dot last_date)
                          (''**/'' @ basename f) name
                   else {#})))"

text \<open>The configs that one file of the second loop writes to.\<close>

definition file_configs :: "string \<Rightarrow> string set" where
  "file_configs f =
     (if contains ''results_'' f then {''results''}
      else insert (sub_nonword (second_task_name f))
             (set (map (\<lambda>sp. special_task_name sp (second_task_name f))
                    (filter (\<lambda>sp. contains (sub_nonword sp)
                               (sub_nonword (second_task_name f))) SPECIAL_TASKS))))"

text \<open>
  The date that the first loop reads from a file's directory, the dates of the details
  files of one task, and what it means for a date to be the last of a set.
\<close>

definition file_date :: "string \<Rightarrow> error + datetime" where
  "file_date sub_file = fromisoformat (join '':'' (rsplit (CHR ''-'') 2 (dirname sub_file)))"

definition is_last_date :: "datetime set \<Rightarrow> datetime \<Rightarrow> bool" where
  "is_last_date D d = (d \<in> D \<and> (\<forall>x. x \<in> D \<longrightarrow> \<not> dt_less d x))"

definition task_dates :: "string list \<Rightarrow> string \<Rightarrow> datetime set" where
  "task_dates fs t =
     {d. \<exists>f. f \<in> set fs \<and> \<not> contains ''results_'' f \<and> first_task_name f = t \<and>
              file_date f = Inr d}"

text \<open>The listing of the two runs in two orders, and the cards built from them.\<close>

definition listing_two_runs :: "string list" where
  "listing_two_runs =
     [results_jan_json, results_jan_parquet, details_jan,
      results_feb_json, results_feb_parquet, details_feb]"

definition listing_two_runs_newest_first :: "string list" where
  "listing_two_runs_newest_first =
     [results_feb_json, results_feb_parquet, details_feb,
      results_jan_json, results_jan_parquet, details_jan]"

definition card_two_runs :: card where
  "card_two_runs =
     [(''results'',
        [\<lparr>split = ''2024_01_15T10_00_00.123456'', path = [results_jan_parquet]\<rparr>,
         \<lparr>split = ''2024_02_15T10_00_00.123456'', path = [results_feb_parquet]\<rparr>,
         \<lparr>split = ''latest'', path = [results_feb_parquet]\<rparr>]),
      (''mmlu_us_history'', [entry_jan, entry_feb, latest_feb])]"

definition card_two_runs_newest_first :: card where
  "card_two_runs_newest_first =
     [(''results'',
        [\<lparr>split = ''2024_02_15T10_00_00.123456'', path = [results_feb_parquet]\<rparr>,
         \<lparr>split = ''latest'', path = [results_feb_parquet]\<rparr>,
         \<lparr>split = ''2024_01_15T10_00_00.123456'', path = [results_jan_parquet]\<rparr>]),
      (''mmlu_us_history'', [entry_feb, latest_feb, entry_jan])]"

text \<open>
  A listing with the two shards and two result files, and the card built from it.
\<close>

definition listing_shards :: "string list" where
  "listing_shards = [results_jan_json, results_feb_json, shard_0, shard_1]"

definition card_shards :: card where
  "card_shards =
     [(''mmlu_us_history'',
        [\<lparr>split = ''2024_01_15T10_00_00.123456'', path = [''**/'' @ basename shard_0]\<rparr>,
         \<lparr>split = ''latest'', path = [''**/'' @ basename shard_0]\<rparr>,
         \<lparr>split = ''2024_01_15T10_00_00.123456'', path = [''**/'' @ basename shard_1]\<rparr>,
         \<lparr>split = ''latest'', path = [''**/'' @ basename shard_1]\<rparr>])]"

text \<open>
  The details files of two subtasks of \<^verbatim>\<open>lighteval|mmlu\<close> evaluated in one run, and
  the card built from them.
\<close>

definition details_us_history :: string where
  "details_us_history =
     ''2024-01-15T10-00-00.123456/details_lighteval|mmlu:us_history|5_2024-01-15T10-00-00.123456.parquet''"



text \<open>
  The details files of one task that lie in a directory of a given sanitised name, as the
  second loop reads them.
\<close>

definition task_files :: "string list \<Rightarrow> string \<Rightarrow> string \<Rightarrow> string list" where
  "task_files parquet_files task_name sanitized_date =
     filter (\<lambda>sub_file. \<not> contains ''results_'' sub_file \<and>
                second_task_name sub_file = task_name \<and>
                sub_nonword_dot (dirname sub_file) = sanitized_date) parquet_files"

text \<open>
  A task named like the config of the special task itself, evaluated in February, next to
  the subtask of January; the card built from the two files; and a details file in a
  directory whose timestamp is written with six zeros for the microseconds.
\<close>

definition run_feb :: datetime where
  "run_feb = \<lparr>year = 2024, month = 2, day = 15, hour = 10, minute = 0, second = 0,
                microsecond = 123456\<rparr>"

definition details_mmlu_feb :: string where
  "details_mmlu_feb =
     ''2024-02-15T10-00-00.123456/details_lighteval|mmlu|5_2024-02-15T10-00-00.123456.parquet''"

definition card_umbrella :: card where
  "card_umbrella =
     [(''lighteval_mmlu_5'',
        [\<lparr>split = ''2024_02_15T10_00_00.123456'',
            path = [''**/'' @ basename details_mmlu_feb, ''**/'' @ basename details_mmlu_feb]\<rparr>,
         \<lparr>split = ''latest'',
            path = [''**/'' @ basename details_mmlu_feb, ''**/'' @ basename details_mmlu_feb,
                    ''**/'' @ basename details_us_history]\<rparr>,
         \<lparr>split = ''2024_01_15T10_00_00.123456'',
            path = [''**/'' @ basename details_us_history]\<rparr>]),
      (''lighteval_mmlu_us_history_5'',
        [\<lparr>split = ''2024_01_15T10_00_00.123456'',
            path = [''**/'' @ basename details_us_history]\<rparr>,
         \<lparr>split = ''latest'', path = [''**/'' @ basename details_us_history]\<rparr>])]"

definition details_whole_second :: string where
  "details_whole_second =
     ''2024-01-15T10-00-00.000000/details_lighteval|arc|0_2024-01-15T10-00-00.000000.parquet''"

section \<open>Empty listings\<close>

text \<open>
  C3.  The claim: an empty listing, and more generally a listing without a details
  parquet file, gives an empty configuration and no error.  The code does not: with no
  details file the dictionary of last dates is empty, and line 331 takes the first
  element of an empty list.  Evaluated at the empty listing and at a listing that holds
  only the results of one run, the function leaves with an \<^verbatim>\<open>IndexError\<close>.
\<close>

theorem empty_listing_raises:
  "recreate_metadata_card [] = Inl IndexError \<and>
   recreate_metadata_card [results_jan_json, results_jan_parquet] = Inl IndexError"
  by code_simp

section \<open>Files that are neither results nor details\<close>

text \<open>
  C7, as stated, fails.  A name that matches neither pattern is still read by both loops
  when it contains \<^verbatim>\<open>.parquet\<close> (here its empty directory name is not a date, and the
  first loop leaves with a \<^verbatim>\<open>ValueError\<close>), and it is still counted among the result
  files when it contains \<^verbatim>\<open>.json\<close> (here it switches the function to its
  multiple-results branch, and a listing that raised now completes).
\<close>

theorem unrecognized_file_counterexample:
  "recreate_metadata_card [results_jan_json, results_jan_parquet, details_jan] =
     Inr [(''results'',
            [\<lparr>split = ''2024_01_15T10_00_00.123456'', path = [results_jan_parquet]\<rparr>,
             \<lparr>split = ''latest'', path = [results_jan_parquet]\<rparr>]),
          (''mmlu_us_history'',
            [entry_jan, \<lparr>split = ''latest'', path = path entry_jan\<rparr>])] \<and>
   recreate_metadata_card
       [results_jan_json, results_jan_parquet, details_jan, ''notes.parquet''] =
     Inl ValueError \<and>
   recreate_metadata_card [results_jan_json, details_jan, details_feb] =
     Inl UnboundLocalError \<and>
   recreate_metadata_card [results_jan_json, details_jan, details_feb, ''notes.json''] =
     Inr [(''mmlu_us_history'', [entry_jan, entry_feb, latest_feb])]"
  by code_simp

text \<open>
  C7, amended.  A file whose name contains neither \<^verbatim>\<open>.parquet\<close> nor \<^verbatim>\<open>.json\<close> is
  left out of both file lists: wherever it stands in the listing, the function returns
  exactly what it returns for the listing without it (the same configuration, or the
  same exception).
\<close>

theorem unrecognized_file_ignored:
  assumes "\<not> contains ''.parquet'' f" and "\<not> contains ''.json'' f"
  shows "recreate_metadata_card (before @ f # after) = recreate_metadata_card (before @ after)"
  using assms by (simp add: recreate_metadata_card_def)

theorem unrecognized_file_ignored_witness:
  "recreate_metadata_card
       ([results_jan_json, results_jan_parquet] @ ''README.md'' # [details_jan]) =
   recreate_metadata_card ([results_jan_json, results_jan_parquet] @ [details_jan])"
proof -
  have "\<not> contains ''.parquet'' ''README.md''" and "\<not> contains ''.json'' ''README.md''"
    by simp_all
  then show ?thesis
    by (rule unrecognized_file_ignored)
qed

section \<open>Sanitised timestamps\<close>

lemma of_char_digit_char: "of_char (digit_char n) = 48 + n mod 10"
proof -
  have "(48 + n mod 10) mod 256 = 48 + n mod 10"
    by (rule mod_pos_pos_trivial) (use pos_mod_bound [of 10 n] pos_mod_sign [of 10 n] in linarith)+
  then show ?thesis
    by (simp add: digit_char_def)
qed

lemma digit_char_neq [simp]:
  "digit_char n \<noteq> CHR '':''" "digit_char n \<noteq> CHR ''-''" "digit_char n \<noteq> CHR ''.''"
  "CHR '':'' \<noteq> digit_char n" "CHR ''-'' \<noteq> digit_char n" "CHR ''.'' \<noteq> digit_char n"
proof -
  have b: "0 \<le> n mod 10" "n mod 10 < 10" by simp_all
  have "of_char (digit_char n) \<noteq> (of_char (CHR '':'') :: int)"
    "of_char (digit_char n) \<noteq> (of_char (CHR ''-'') :: int)"
    "of_char (digit_char n) \<noteq> (of_char (CHR ''.'') :: int)"
    using b by (simp_all add: of_char_digit_char)
  then show "digit_char n \<noteq> CHR '':''" "digit_char n \<noteq> CHR ''-''" "digit_char n \<noteq> CHR ''.''"
    by auto
  then show "CHR '':'' \<noteq> digit_char n" "CHR ''-'' \<noteq> digit_char n" "CHR ''.'' \<noteq> digit_char n"
    by auto
qed

lemma is_digit_digit_char [simp]: "is_digit (digit_char n)"
  by (simp add: is_digit_def of_char_digit_char)

lemma digit_val_digit_char [simp]: "digit_val (digit_char n) = n mod 10"
  by (simp add: digit_val_def of_char_digit_char)

lemma sanitize_recover:
  "join '':'' (rsplit (CHR ''-'') 2 (date_id d)) = isoformat d"
  by (simp add: date_id_def isoformat_def pad2_def pad4_def pad6_def rsplit_def
      numeral_2_eq_2)


lemma horner6:
  fixes n :: int
  assumes "n = 10 * a1 + r0" "a1 = 10 * a2 + r1" "a2 = 10 * a3 + r2" "a3 = 10 * a4 + r3"
    "a4 = 10 * a5 + r4" "a5 = r5"
  shows "100000 * r5 + 10000 * r4 + 1000 * r3 + 100 * r2 + 10 * r1 + r0 = n"
  using assms by simp

lemma digits6:
  fixes n :: int
  assumes "0 \<le> n" "n < 1000000"
  shows "100000 * (n div 100000 mod 10) + 10000 * (n div 10000 mod 10) +
         1000 * (n div 1000 mod 10) + 100 * (n div 100 mod 10) + 10 * (n div 10 mod 10) +
         n mod 10 = n"
proof (rule horner6)
  show "n = 10 * (n div 10) + n mod 10" by simp
  show "n div 10 = 10 * (n div 100) + n div 10 mod 10"
    using div_mult_mod_eq [of "n div 10" 10] by (simp add: zdiv_zmult2_eq [symmetric])
  show "n div 100 = 10 * (n div 1000) + n div 100 mod 10"
    using div_mult_mod_eq [of "n div 100" 10] by (simp add: zdiv_zmult2_eq [symmetric])
  show "n div 1000 = 10 * (n div 10000) + n div 1000 mod 10"
    using div_mult_mod_eq [of "n div 1000" 10] by (simp add: zdiv_zmult2_eq [symmetric])
  show "n div 10000 = 10 * (n div 100000) + n div 10000 mod 10"
    using div_mult_mod_eq [of "n div 10000" 10] by (simp add: zdiv_zmult2_eq [symmetric])
  have "n div 100000 < 10" "0 \<le> n div 100000"
    using assms by linarith+
  then show "n div 100000 = n div 100000 mod 10"
    by simp
qed

lemma horner4:
  fixes n :: int
  assumes "n = 10 * a1 + r0" "a1 = 10 * a2 + r1" "a2 = 10 * a3 + r2" "a3 = r3"
  shows "1000 * r3 + 100 * r2 + 10 * r1 + r0 = n"
  using assms by simp

lemma digits4:
  fixes n :: int
  assumes "0 \<le> n" "n < 10000"
  shows "1000 * (n div 1000 mod 10) + 100 * (n div 100 mod 10) + 10 * (n div 10 mod 10) +
         n mod 10 = n"
proof (rule horner4)
  show "n = 10 * (n div 10) + n mod 10" by simp
  show "n div 10 = 10 * (n div 100) + n div 10 mod 10"
    using div_mult_mod_eq [of "n div 10" 10] by (simp add: zdiv_zmult2_eq [symmetric])
  show "n div 100 = 10 * (n div 1000) + n div 100 mod 10"
    using div_mult_mod_eq [of "n div 100" 10] by (simp add: zdiv_zmult2_eq [symmetric])
  have "n div 1000 < 10" "0 \<le> n div 1000"
    using assms by linarith+
  then show "n div 1000 = n div 1000 mod 10"
    by simp
qed

lemma parse_pad2: "0 \<le> n \<Longrightarrow> n < 100 \<Longrightarrow> parse_digits [digit_char (n div 10), digit_char n] = Some n"
  by (simp add: parse_digits_def)

lemma parse_pad4:
  assumes "0 \<le> n" "n < 10000"
  shows "parse_digits [digit_char (n div 1000), digit_char (n div 100), digit_char (n div 10),
           digit_char n] = Some n"
proof -
  have "parse_digits [digit_char (n div 1000), digit_char (n div 100), digit_char (n div 10),
           digit_char n] =
        Some (1000 * (n div 1000 mod 10) + 100 * (n div 100 mod 10) + 10 * (n div 10 mod 10) +
         n mod 10)"
    by (simp add: parse_digits_def)
  then show ?thesis
    by (simp only: digits4 [OF assms])
qed

lemma parse_pad6:
  assumes "0 \<le> n" "n < 1000000"
  shows "parse_digits [digit_char (n div 100000), digit_char (n div 10000),
           digit_char (n div 1000), digit_char (n div 100), digit_char (n div 10),
           digit_char n] = Some n"
proof -
  have "parse_digits [digit_char (n div 100000), digit_char (n div 10000),
           digit_char (n div 1000), digit_char (n div 100), digit_char (n div 10),
           digit_char n] =
        Some (100000 * (n div 100000 mod 10) + 10000 * (n div 10000 mod 10) +
         1000 * (n div 1000 mod 10) + 100 * (n div 100 mod 10) + 10 * (n div 10 mod 10) +
         n mod 10)"
    by (simp add: parse_digits_def)
  then show ?thesis
    by (simp only: digits6 [OF assms])
qed

lemma days_in_month_le: "days_in_month y m \<le> 31"
  by (simp add: days_in_month_def)

lemma valid_datetime_bounds:
  assumes "valid_datetime d"
  shows "0 \<le> year d" "year d < 10000" "0 \<le> month d" "month d < 100" "0 \<le> day d" "day d < 100"
    "0 \<le> hour d" "hour d < 100" "0 \<le> minute d" "minute d < 100"
    "0 \<le> second d" "second d < 100" "0 \<le> microsecond d" "microsecond d < 1000000"
  using assms days_in_month_le [of "year d" "month d"]
  by (simp_all add: valid_datetime_def)

lemma isoformat_take_10:
  "take 10 (isoformat d) = pad4 (year d) @ ''-'' @ pad2 (month d) @ ''-'' @ pad2 (day d)"
  by (simp add: isoformat_def pad2_def pad4_def)

lemma isoformat_drop_11:
  "drop 11 (isoformat d) =
     pad2 (hour d) @ '':'' @ pad2 (minute d) @ '':'' @ pad2 (second d) @
     (if microsecond d = 0 then [] else ''.'' @ pad6 (microsecond d))"
  by (simp add: isoformat_def pad2_def pad4_def)

lemma length_isoformat: "length (isoformat d) = (if microsecond d = 0 then 19 else 26)"
  by (simp add: isoformat_def pad2_def pad4_def pad6_def)

lemma parse_date_isoformat:
  assumes "valid_datetime d"
  shows "parse_date (take 10 (isoformat d)) = Some (year d, month d, day d)"
  unfolding isoformat_take_10
  using valid_datetime_bounds [OF assms]
  by (simp add: parse_date_def pad2_def pad4_def parse_pad2 parse_pad4)

lemma parse_time_isoformat:
  assumes "valid_datetime d"
  shows "parse_time (drop 11 (isoformat d)) =
           Some (hour d, minute d, second d, microsecond d)"
  unfolding isoformat_drop_11
  using valid_datetime_bounds [OF assms]
  by (simp add: parse_time_def pad2_def pad6_def parse_pad2 parse_pad6 Let_def)

lemma fromisoformat_isoformat:
  assumes "valid_datetime d"
  shows "fromisoformat (isoformat d) = Inr d"
  using assms
  by (simp add: fromisoformat_def parse_date_isoformat [OF assms]
      parse_time_isoformat [OF assms] length_isoformat valid_datetime_def)

text \<open>
  C9.  For every datetime \<open>now\<close> that the constructor accepts, the directory name
  \<^verbatim>\<open>date_id\<close> of line 149 (every colon of the ISO string replaced by a hyphen) is
  turned back by line 324 (the last two hyphen-separated pieces rejoined with colons)
  into the ISO string it came from, and line 325 parses that string to \<open>now\<close> again.
\<close>

theorem date_id_round_trip:
  assumes "valid_datetime now"
  shows "join '':'' (rsplit (CHR ''-'') 2 (date_id now)) = isoformat now \<and>
         fromisoformat (join '':'' (rsplit (CHR ''-'') 2 (date_id now))) = Inr now"
  using assms by (simp add: sanitize_recover fromisoformat_isoformat)

theorem date_id_round_trip_witness:
  "date_id leap_day_run = ''2024-02-29T23-59-07.004200'' \<and>
   join '':'' (rsplit (CHR ''-'') 2 (date_id leap_day_run)) = ''2024-02-29T23:59:07.004200'' \<and>
   fromisoformat (join '':'' (rsplit (CHR ''-'') 2 (date_id leap_day_run))) = Inr leap_day_run"
proof -
  have "valid_datetime leap_day_run"
    by code_simp
  from date_id_round_trip [OF this] show ?thesis
    by code_simp
qed

section \<open>Properties of the string functions and of the two loops\<close>

lemma startswith_append: "startswith s p \<Longrightarrow> startswith (s @ t) p"
  by (induction s p rule: startswith.induct) auto

lemma split_first_prefix: "\<exists>t. s = split_first sep s @ t"
  by (induction s) auto

lemma startswith_split_first:
  "startswith (c # split_first sep cs) sep \<Longrightarrow> startswith (c # cs) sep"
proof -
  assume a: "startswith (c # split_first sep cs) sep"
  obtain t where "cs = split_first sep cs @ t"
    using split_first_prefix by blast
  then have "c # cs = (c # split_first sep cs) @ t"
    by simp
  with a show ?thesis
    using startswith_append by metis
qed

lemma not_contains_split_first: "sep \<noteq> [] \<Longrightarrow> \<not> contains sep (split_first sep s)"
  by (induction s) (auto dest: startswith_split_first)

lemma split_first_id: "\<not> contains sep s \<Longrightarrow> split_first sep s = s"
  by (induction s) auto

lemma second_loop_append:
  "second_loop mr reg mx st (xs @ ys) =
     (case second_loop mr reg mx st xs of
        Inl e \<Rightarrow> Inl e
      | Inr st1 \<Rightarrow> second_loop mr reg mx st1 ys)"
  by (induction xs arbitrary: st) (auto split: sum.splits)

lemma first_loop_body_keys:
  assumes "first_loop_body r f = Inr r1" and "k \<in> fst ` set r1"
  shows "k \<in> fst ` set r \<or> \<not> contains ''_202'' k"
proof (cases "contains ''results_'' f")
  case True
  with assms show ?thesis
    by (simp add: first_loop_body_def)
next
  case False
  with assms(1) obtain v where "r1 = AList.update (first_task_name f) v r"
    by (auto simp: first_loop_body_def Let_def split: sum.splits)
  with assms(2) have "k = first_task_name f \<or> k \<in> fst ` set r"
    by (simp add: dom_update)
  then show ?thesis
    by (auto simp: first_task_name_def not_contains_split_first)
qed

lemma first_loop_keys:
  "first_loop r fs = Inr r' \<Longrightarrow> k \<in> fst ` set r' \<Longrightarrow>
   k \<in> fst ` set r \<or> \<not> contains ''_202'' k"
proof (induction fs arbitrary: r)
  case Nil
  then show ?case by simp
next
  case (Cons f fs)
  from Cons.prems(1) obtain r1 where r1: "first_loop_body r f = Inr r1" "first_loop r1 fs = Inr r'"
    by (auto split: sum.splits)
  from Cons.IH [OF r1(2) Cons.prems(2)] have "k \<in> fst ` set r1 \<or> \<not> contains ''_202'' k" .
  then show ?case
    using first_loop_body_keys [OF r1(1)] by blast
qed

lemma map_of_iso_dates: "map_of (iso_dates r) k = map_option isoformat (map_of r k)"
  by (induction r) (auto simp: iso_dates_def)

lemma second_loop_body_KeyError:
  "\<not> contains ''results_'' f \<Longrightarrow> map_of reg (second_task_name f) = None \<Longrightarrow>
   second_loop_body mr reg mx st f = Inl KeyError"
  by (simp add: second_loop_body_def)


lemma add_entry_keys:
  assumes "add_entry mr stask sdate slast name st = Inr st1"
  shows "map_of (card_metadata st1) stask \<noteq> None"
    and "map_of (card_metadata st) k \<noteq> None \<Longrightarrow> map_of (card_metadata st1) k \<noteq> None"
  using assms
  by (auto simp: add_entry_def Let_def update_conv' split: if_splits)

lemma special_task_body_keys:
  "map_of (card_metadata st) k \<noteq> None \<Longrightarrow>
   map_of (card_metadata (special_task_body tn stask sdate slast name sp st)) k \<noteq> None"
  by (auto simp: special_task_body_def Let_def update_conv')

lemma fold_special_task_body_keys:
  "map_of (card_metadata st) k \<noteq> None \<Longrightarrow>
   map_of (card_metadata (fold (special_task_body tn stask sdate slast name) sps st)) k \<noteq> None"
proof (induction sps arbitrary: st)
  case Nil
  then show ?case by simp
next
  case (Cons sp sps)
  from special_task_body_keys [OF Cons.prems]
  have "map_of (card_metadata (special_task_body tn stask sdate slast name sp st)) k \<noteq> None" .
  from Cons.IH [OF this] show ?case
    by simp
qed

lemma build_configs_fails:
  assumes "\<And>last mx. first_loop [] fs = Inr last \<Longrightarrow>
             \<exists>e. second_loop mr (iso_dates last) (isoformat mx)
                   \<lparr>card_metadata = [], former_entry_bound = False\<rparr> fs = Inl e"
  shows "\<exists>e. build_configs mr fs = Inl e"
proof (cases "first_loop [] fs")
  case (Inl e)
  then show ?thesis
    by (simp add: build_configs_def)
next
  case last: (Inr last)
  show ?thesis
  proof (cases "max_last_eval_date last")
    case (Inl e)
    with last show ?thesis
      by (simp add: build_configs_def)
  next
    case (Inr mx)
    from assms [OF last] obtain e where
      "second_loop mr (iso_dates last) (isoformat mx)
         \<lparr>card_metadata = [], former_entry_bound = False\<rparr> fs = Inl e"
      by blast
    with last Inr show ?thesis
      by (simp add: build_configs_def)
  qed
qed

lemma second_loop_body_keys:
  assumes "second_loop_body mr reg mx st f = Inr st1"
    and "map_of (card_metadata st) k \<noteq> None"
  shows "map_of (card_metadata st1) k \<noteq> None"
proof (cases "contains ''results_'' f")
  case True
  with assms show ?thesis
    by (auto simp: second_loop_body_def Let_def dest: add_entry_keys(2))
next
  case False
  with assms(1) obtain last st0 where
    a: "add_entry mr (sub_nonword (second_task_name f)) (sub_nonword_dot (dirname f))
          (sub_nonword_dot last) (''**/'' @ basename f) st = Inr st0"
    and b: "st1 = fold (special_task_body (second_task_name f) (sub_nonword (second_task_name f))
          (sub_nonword_dot (dirname f)) (sub_nonword_dot last) (''**/'' @ basename f))
          SPECIAL_TASKS st0"
    by (auto simp: second_loop_body_def Let_def split: option.splits sum.splits)
  from add_entry_keys(2) [OF a assms(2)] show ?thesis
    unfolding b by (rule fold_special_task_body_keys)
qed

lemma second_loop_keys:
  "second_loop mr reg mx st fs = Inr st1 \<Longrightarrow> map_of (card_metadata st) k \<noteq> None \<Longrightarrow>
   map_of (card_metadata st1) k \<noteq> None"
proof (induction fs arbitrary: st)
  case Nil
  then show ?case by simp
next
  case (Cons f fs)
  from Cons.prems(1) obtain st0 where
    s: "second_loop_body mr reg mx st f = Inr st0" "second_loop mr reg mx st0 fs = Inr st1"
    by (auto split: sum.splits)
  from second_loop_body_keys [OF s(1) Cons.prems(2)] Cons.IH [OF s(2)] show ?case
    by blast
qed

lemma results_file_adds_results:
  assumes "contains ''results_'' f" and "second_loop_body mr reg mx st f = Inr st1"
  shows "map_of (card_metadata st1) ''results'' \<noteq> None"
  using assms by (auto simp: second_loop_body_def Let_def dest: add_entry_keys(1))

lemma second_results_file:
  assumes "contains ''results_'' f" and "map_of (card_metadata st) ''results'' \<noteq> None"
  shows "second_loop_body False reg mx st f =
           Inl (if former_entry_bound st then ValueError else UnboundLocalError)"
  using assms by (simp add: second_loop_body_def add_entry_def Let_def)

lemma second_loop_second_results_file:
  assumes r1: "contains ''results_'' r1" and r2: "contains ''results_'' r2"
    and st: "second_loop False reg mx st0 (pre @ r1 # mid) = Inr st"
  shows "second_loop False reg mx st0 (pre @ r1 # mid @ r2 # post) =
           Inl (if former_entry_bound st then ValueError else UnboundLocalError)"
proof -
  from st obtain sa sb where
    a: "second_loop False reg mx st0 pre = Inr sa"
    and b: "second_loop_body False reg mx sa r1 = Inr sb"
    and c: "second_loop False reg mx sb mid = Inr st"
    by (auto simp: second_loop_append split: sum.splits)
  from results_file_adds_results [OF r1 b] have "map_of (card_metadata sb) ''results'' \<noteq> None" .
  from second_loop_keys [OF c this] have "map_of (card_metadata st) ''results'' \<noteq> None" .
  from second_results_file [OF r2 this]
  have "second_loop False reg mx st (r2 # post) =
          Inl (if former_entry_bound st then ValueError else UnboundLocalError)"
    by simp
  moreover have "pre @ r1 # mid @ r2 # post = (pre @ r1 # mid) @ r2 # post"
    by simp
  ultimately show ?thesis
    using st by (simp only: second_loop_append sum.case)
qed

lemma second_loop_second_results_file_fails:
  assumes r1: "contains ''results_'' r1" and r2: "contains ''results_'' r2"
  shows "\<exists>e. second_loop False reg mx st0 (pre @ r1 # mid @ r2 # post) = Inl e"
proof (cases "second_loop False reg mx st0 (pre @ r1 # mid)")
  case (Inl e)
  have "pre @ r1 # mid @ r2 # post = (pre @ r1 # mid) @ r2 # post"
    by simp
  with Inl show ?thesis
    by (simp only: second_loop_append sum.case) blast
next
  case (Inr st)
  from second_loop_second_results_file [OF r1 r2 Inr] show ?thesis
    by blast
qed

lemma first_loop_no_such_key:
  assumes "first_loop [] fs = Inr reg" and "contains ''_202'' k"
  shows "map_of (iso_dates reg) k = None"
proof -
  have "k \<notin> fst ` set reg"
    using first_loop_keys [OF assms(1), of k] assms(2) by auto
  then have "map_of reg k = None"
    by (simp add: map_of_eq_None_iff)
  then show ?thesis
    by (simp add: map_of_iso_dates)
qed

section \<open>A second result file in single-result mode\<close>

lemma add_entry_False_bound:
  "add_entry False stask sdate slast name st = Inr st1 \<Longrightarrow>
   former_entry_bound st1 = former_entry_bound st"
  by (auto simp: add_entry_def Let_def split: if_splits)

lemma fold_special_task_body_none:
  "\<not> list_ex (\<lambda>sp. contains (sub_nonword sp) stask) sps \<Longrightarrow>
   fold (special_task_body tn stask sdate slast name) sps st = st"
  by (induction sps arbitrary: st) (simp_all add: special_task_body_def)

lemma second_loop_body_False_bound:
  assumes "second_loop_body False reg mx st f = Inr st1" and "\<not> special_file f"
  shows "former_entry_bound st1 = former_entry_bound st"
proof (cases "contains ''results_'' f")
  case True
  with assms(1) show ?thesis
    by (auto simp: second_loop_body_def Let_def dest: add_entry_False_bound)
next
  case False
  with assms(2) have
    "\<not> list_ex (\<lambda>sp. contains (sub_nonword sp) (sub_nonword (second_task_name f))) SPECIAL_TASKS"
    by (simp add: special_file_def)
  note none = fold_special_task_body_none [OF this]
  from assms(1) False show ?thesis
    by (auto simp: second_loop_body_def Let_def none split: option.splits sum.splits
        dest: add_entry_False_bound)
qed

lemma second_loop_False_bound:
  "second_loop False reg mx st fs = Inr st1 \<Longrightarrow> \<not> list_ex special_file fs \<Longrightarrow>
   former_entry_bound st1 = former_entry_bound st"
proof (induction fs arbitrary: st)
  case Nil
  then show ?case by simp
next
  case (Cons f fs)
  from Cons.prems(1) obtain st0 where
    s: "second_loop_body False reg mx st f = Inr st0" "second_loop False reg mx st0 fs = Inr st1"
    by (auto split: sum.splits)
  from Cons.prems(2) have n: "\<not> special_file f" "\<not> list_ex special_file fs"
    by simp_all
  from Cons.IH [OF s(2) n(2)] second_loop_body_False_bound [OF s(1) n(1)] show ?case
    by simp
qed

lemma second_result_file_after_special:
  "recreate_metadata_card
     [results_jan_json, details_us_history, results_jan_parquet, results_feb_parquet] =
   Inl ValueError"
  by code_simp

text \<open>
  C8 fails on the code.  When the listing has at most one \<^verbatim>\<open>.json\<close> file
  (\<^verbatim>\<open>multiple_results\<close> is false) and its parquet files contain two result files \<open>r1\<close>
  and \<open>r2\<close>, the function leaves with an exception and builds no card; but when the
  loops get as far as \<open>r2\<close> and no details file of a special task came before it, the
  exception is not the \<^verbatim>\<open>ValueError\<close> of the guard of lines 370--373: the message of
  that \<^verbatim>\<open>ValueError\<close> reads \<^verbatim>\<open>former_entry\<close>, which was never assigned, and the
  function leaves with an \<^verbatim>\<open>UnboundLocalError\<close>.
\<close>

theorem second_result_file_unbound:
  assumes single: "length (filter (contains ''.json'') files_in_repo) \<le> 1"
    and pf: "filter (contains ''.parquet'') files_in_repo = pre @ r1 # mid @ r2 # post"
    and r1: "contains ''results_'' r1" and r2: "contains ''results_'' r2"
    and ns: "\<not> list_ex special_file (pre @ mid)"
  shows "(\<exists>e. recreate_metadata_card files_in_repo = Inl e) \<and>
         (\<forall>last mx st.
            first_loop [] (pre @ r1 # mid @ r2 # post) = Inr last \<longrightarrow>
            max_last_eval_date last = Inr mx \<longrightarrow>
            second_loop False (iso_dates last) (isoformat mx)
              \<lparr>card_metadata = [], former_entry_bound = False\<rparr> (pre @ r1 # mid) = Inr st \<longrightarrow>
            recreate_metadata_card files_in_repo = Inl UnboundLocalError)"
proof -
  from single have mr: "\<not> 1 < length (filter (contains ''.json'') files_in_repo)"
    by simp
  have eq: "recreate_metadata_card files_in_repo = build_configs False (pre @ r1 # mid @ r2 # post)"
    using mr pf by (simp add: recreate_metadata_card_def)
  from r1 have "\<not> special_file r1"
    by (simp add: special_file_def)
  with ns have ns': "\<not> list_ex special_file (pre @ r1 # mid)"
    by simp
  have "\<exists>e. build_configs False (pre @ r1 # mid @ r2 # post) = Inl e"
    by (rule build_configs_fails) (rule second_loop_second_results_file_fails [OF r1 r2])
  moreover have "build_configs False (pre @ r1 # mid @ r2 # post) = Inl UnboundLocalError"
    if "first_loop [] (pre @ r1 # mid @ r2 # post) = Inr last"
      and "max_last_eval_date last = Inr mx"
      and "second_loop False (iso_dates last) (isoformat mx)
              \<lparr>card_metadata = [], former_entry_bound = False\<rparr> (pre @ r1 # mid) = Inr st"
    for last mx st
  proof -
    from second_loop_False_bound [OF that(3) ns'] have "\<not> former_entry_bound st"
      by simp
    with that second_loop_second_results_file [OF r1 r2 that(3)] show ?thesis
      by (simp add: build_configs_def)
  qed
  ultimately show ?thesis
    unfolding eq by blast
qed

theorem second_result_file_unbound_witness:
  "recreate_metadata_card
     [results_jan_json, results_jan_parquet, details_jan, results_feb_parquet] =
   Inl UnboundLocalError"
proof -
  let ?files = "[results_jan_json, results_jan_parquet, details_jan, results_feb_parquet]"
  let ?st = "\<lparr>card_metadata =
                 [(''results'',
                   [\<lparr>split = ''2024_01_15T10_00_00.123456'', path = [results_jan_parquet]\<rparr>,
                    \<lparr>split = ''latest'', path = [results_jan_parquet]\<rparr>]),
                  (''mmlu_us_history'',
                   [entry_jan,
                    \<lparr>split = ''latest'',
                       path = [''**/details_mmlu:us_history_2024-01-15T10-00-00.123456.parquet'']\<rparr>])],
               former_entry_bound = False\<rparr>"
  have 1: "length (filter (contains ''.json'') ?files) \<le> 1"
    by code_simp
  have 2: "filter (contains ''.parquet'') ?files =
             [] @ results_jan_parquet # [details_jan] @ results_feb_parquet # []"
    by code_simp
  have 3: "contains ''results_'' results_jan_parquet" "contains ''results_'' results_feb_parquet"
    by code_simp+
  have 4: "\<not> list_ex special_file ([] @ [details_jan])"
    by code_simp
  have 5: "first_loop [] ([] @ results_jan_parquet # [details_jan] @ results_feb_parquet # []) =
             Inr [(''mmlu:us_history'', run_jan)]"
    by code_simp
  have 6: "max_last_eval_date [(''mmlu:us_history'', run_jan)] = Inr run_jan"
    by code_simp
  have 7: "second_loop False (iso_dates [(''mmlu:us_history'', run_jan)]) (isoformat run_jan)
             \<lparr>card_metadata = [], former_entry_bound = False\<rparr>
             ([] @ results_jan_parquet # [details_jan]) =
           Inr ?st"
    by code_simp
  from second_result_file_unbound [OF 1 2 3 4, THEN conjunct2, rule_format, OF 5 6 7]
  show ?thesis .
qed

section \<open>Details files of a year other than 2023 and 2024\<close>

text \<open>
  C10, as stated, fails: a details file of 2030 (no \<^verbatim>\<open>_202\<close> in its name, so both loops
  keep the whole name) and one of 2025 whose task name contains \<^verbatim>\<open>_2024\<close> (both loops
  cut there) are reconciled without any exception.
\<close>

theorem other_year_counterexample:
  "recreate_metadata_card [details_2030] =
     Inr [(''arc_easy_2030_01_15T10_00_00_123456_parquet'',
            [\<lparr>split = ''2030_01_15T10_00_00.123456'',
               path = [''**/details_arc:easy_2030-01-15T10-00-00.123456.parquet'']\<rparr>,
             \<lparr>split = ''latest'',
               path = [''**/details_arc:easy_2030-01-15T10-00-00.123456.parquet'']\<rparr>])] \<and>
   recreate_metadata_card [details_aime_2025] =
     Inr [(''lighteval_aime'',
            [\<lparr>split = ''2025_03_01T09_30_00.500000'',
               path = [''**/details_lighteval|aime_2024|0_2025-03-01T09-30-00.500000.parquet'']\<rparr>,
             \<lparr>split = ''latest'',
               path = [''**/details_lighteval|aime_2024|0_2025-03-01T09-30-00.500000.parquet'']\<rparr>])]"
  by code_simp

text \<open>
  C10, amended.  Let \<open>f\<close> be a details parquet file of the listing whose base name,
  without \<^verbatim>\<open>details_\<close>, contains \<^verbatim>\<open>_202\<close> but neither \<^verbatim>\<open>_2023\<close> nor \<^verbatim>\<open>_2024\<close> (for
  instance a task name without \<^verbatim>\<open>_202\<close> and a timestamp of 2020--2022 or 2025--2029).  Then the
  task name of the second loop is that whole name, timestamp suffix included; it is
  not a key of the dictionary that the first loop builds; the function leaves with an
  exception; and if the loops get as far as \<open>f\<close>, the exception is the \<^verbatim>\<open>KeyError\<close> of
  line 353.
\<close>

theorem other_year_raises:
  assumes nr: "\<not> contains ''results_'' f"
    and y: "contains ''_202'' (py_replace ''details_'' [] (basename f))"
    and n23: "\<not> contains ''_2023'' (py_replace ''details_'' [] (basename f))"
    and n24: "\<not> contains ''_2024'' (py_replace ''details_'' [] (basename f))"
    and pf: "filter (contains ''.parquet'') files_in_repo = pre @ f # post"
  shows "second_task_name f = py_replace ''details_'' [] (basename f) \<and>
         (\<forall>last. first_loop [] (pre @ f # post) = Inr last \<longrightarrow>
            map_of (iso_dates last) (second_task_name f) = None) \<and>
         (\<exists>e. recreate_metadata_card files_in_repo = Inl e) \<and>
         (\<forall>last mx st.
            first_loop [] (pre @ f # post) = Inr last \<longrightarrow>
            max_last_eval_date last = Inr mx \<longrightarrow>
            second_loop (1 < length (filter (contains ''.json'') files_in_repo))
              (iso_dates last) (isoformat mx)
              \<lparr>card_metadata = [], former_entry_bound = False\<rparr> pre = Inr st \<longrightarrow>
            recreate_metadata_card files_in_repo = Inl KeyError)"
proof -
  let ?mr = "1 < length (filter (contains ''.json'') files_in_repo)"
  let ?st0 = "\<lparr>card_metadata = [], former_entry_bound = False\<rparr>"
  have tn: "second_task_name f = py_replace ''details_'' [] (basename f)"
    using n23 n24 by (simp add: second_task_name_def split_first_id)
  have key: "map_of (iso_dates last) (second_task_name f) = None"
    if "first_loop [] (pre @ f # post) = Inr last" for last
    using first_loop_no_such_key [OF that] y by (simp add: tn)
  have eq: "recreate_metadata_card files_in_repo = build_configs ?mr (pre @ f # post)"
    using pf by (simp add: recreate_metadata_card_def)
  have at_f: "second_loop ?mr (iso_dates last) mx st (f # post) = Inl KeyError"
    if "first_loop [] (pre @ f # post) = Inr last" for last mx st
    using second_loop_body_KeyError [OF nr key [OF that]] by simp
  have fails: "\<exists>e. second_loop ?mr (iso_dates last) mx ?st0 (pre @ f # post) = Inl e"
    if "first_loop [] (pre @ f # post) = Inr last" for last mx
    using at_f [OF that]
    by (cases "second_loop ?mr (iso_dates last) mx ?st0 pre") (simp_all add: second_loop_append)
  have "\<exists>e. build_configs ?mr (pre @ f # post) = Inl e"
    by (rule build_configs_fails) (rule fails)
  moreover have "build_configs ?mr (pre @ f # post) = Inl KeyError"
    if "first_loop [] (pre @ f # post) = Inr last" and "max_last_eval_date last = Inr mx"
      and "second_loop ?mr (iso_dates last) (isoformat mx) ?st0 pre = Inr st"
    for last mx st
    using that at_f [OF that(1)] by (simp add: build_configs_def second_loop_append)
  ultimately show ?thesis
    unfolding eq using tn key by blast
qed

theorem other_year_raises_witness:
  "second_task_name details_2025 = ''mmlu:us_history_2025-03-01T09-30-00.500000.parquet'' \<and>
   first_task_name details_2025 = ''mmlu:us_history'' \<and>
   recreate_metadata_card [results_jan_json, details_2025] = Inl KeyError"
proof -
  let ?files = "[results_jan_json, details_2025]"
  have 1: "\<not> contains ''results_'' details_2025"
    by code_simp
  have 2: "contains ''_202'' (py_replace ''details_'' [] (basename details_2025))"
    by code_simp
  have 3: "\<not> contains ''_2023'' (py_replace ''details_'' [] (basename details_2025))"
    by code_simp
  have 4: "\<not> contains ''_2024'' (py_replace ''details_'' [] (basename details_2025))"
    by code_simp
  have 5: "filter (contains ''.parquet'') ?files = [] @ details_2025 # []"
    by code_simp
  have 6: "first_loop [] ([] @ details_2025 # []) = Inr [(''mmlu:us_history'', run_2025)]"
    by code_simp
  have 7: "max_last_eval_date [(''mmlu:us_history'', run_2025)] = Inr run_2025"
    by code_simp
  have 8: "second_loop (1 < length (filter (contains ''.json'') ?files))
             (iso_dates [(''mmlu:us_history'', run_2025)]) (isoformat run_2025)
             \<lparr>card_metadata = [], former_entry_bound = False\<rparr> [] =
           Inr \<lparr>card_metadata = [], former_entry_bound = False\<rparr>"
    by simp
  note raises = other_year_raises [OF 1 2 3 4 5]
  have "recreate_metadata_card ?files = Inl KeyError"
    using raises [THEN conjunct2, THEN conjunct2, THEN conjunct2, rule_format, OF 6 7 8] .
  moreover have "second_task_name details_2025 =
      ''mmlu:us_history_2025-03-01T09-30-00.500000.parquet''"
    by code_simp
  moreover have "first_task_name details_2025 = ''mmlu:us_history''"
    by code_simp
  ultimately show ?thesis
    by simp
qed

section \<open>What each file adds to the card\<close>

lemma config_entries_update:
  "config_entries (AList.update k v c) config = (if config = k then v else config_entries c config)"
  by (simp add: config_entries_def update_conv')

lemma split_paths_append:
  "split_paths (ds @ es) name = split_paths ds name + split_paths es name"
  by (simp add: split_paths_def)

lemma split_paths_single:
  "split_paths [\<lparr>split = s, path = [p]\<rparr>] name = (if name = s then {#p#} else {#})"
  by (auto simp: split_paths_def)

lemma split_paths_Nil: "split_paths [] name = {#}"
  by (simp add: split_paths_def)

lemma split_paths_Cons:
  "split_paths (d # ds) name =
     (if split d = name then mset (path d) else {#}) + split_paths ds name"
  by (simp add: split_paths_def)

lemma split_index_Some:
  "split_index name ds = Some i \<Longrightarrow> i < length ds \<and> split (ds ! i) = name"
proof (induction ds arbitrary: i)
  case Nil
  then show ?case by simp
next
  case (Cons d ds)
  then show ?case
    by (cases "split d = name") auto
qed

lemma split_paths_list_update:
  assumes "i < length ds"
  shows "split_paths (ds[i := (ds ! i)\<lparr>path := path (ds ! i) @ [p]\<rparr>]) name =
           split_paths ds name + (if split (ds ! i) = name then {#p#} else {#})"
  using assms
proof (induction ds arbitrary: i)
  case Nil
  then show ?case by simp
next
  case (Cons d ds)
  show ?case
  proof (cases i)
    case 0
    then show ?thesis
      by (simp add: split_paths_def)
  next
    case (Suc j)
    with Cons.prems have "j < length ds"
      by simp
    from Cons.IH [OF this] Suc show ?thesis
      by (simp add: split_paths_def)
  qed
qed

lemma split_paths_extend_split:
  "split_paths (extend_split s p ds) name =
     split_paths ds name + (if name = s then {#p#} else {#})"
proof (cases "split_index s ds")
  case None
  then show ?thesis
    by (simp add: extend_split_def split_paths_append split_paths_single)
next
  case (Some i)
  from split_index_Some [OF Some] have "i < length ds" "split (ds ! i) = s"
    by simp_all
  with Some show ?thesis
    by (auto simp: extend_split_def split_paths_list_update)
qed

lemma config_entries_add_entry:
  assumes "add_entry mr stask sdate slast name st = Inr st1"
  shows "config_entries (card_metadata st1) config =
           (if config = stask
            then config_entries (card_metadata st) stask @
                 [\<lparr>split = sdate, path = [name]\<rparr>] @
                 (if sdate = slast then [\<lparr>split = ''latest'', path = [name]\<rparr>] else [])
            else config_entries (card_metadata st) config)"
proof (cases "map_of (card_metadata st) stask")
  case None
  with assms show ?thesis
    by (auto simp: add_entry_def Let_def config_entries_def update_conv')
next
  case (Some fe)
  with assms show ?thesis
    by (auto simp: add_entry_def Let_def config_entries_def update_conv' split: if_splits)
qed

lemma paths_of_add_entry:
  assumes "add_entry mr stask sdate slast name st = Inr st1"
  shows "paths_of (card_metadata st1) config s =
           paths_of (card_metadata st) config s +
           (if config = stask then entry_paths sdate slast name s else {#})"
  unfolding paths_of_def config_entries_add_entry [OF assms]
  by (auto simp: split_paths_append split_paths_Cons split_paths_Nil entry_paths_def)

lemma config_entries_special_task_body:
  "config_entries (card_metadata (special_task_body tn stask sdate slast name sp st)) config =
     (if contains (sub_nonword sp) stask \<and> config = special_task_name sp tn
      then (if sdate = slast then extend_split ''latest'' name else id)
             (case map_of (card_metadata st) config of
                None \<Rightarrow> [\<lparr>split = sdate, path = [name]\<rparr>]
              | Some fe \<Rightarrow> extend_split sdate name fe)
      else config_entries (card_metadata st) config)"
  by (simp add: special_task_body_def Let_def config_entries_def update_conv')

lemma paths_of_special_task_body:
  "paths_of (card_metadata (special_task_body tn stask sdate slast name sp st)) config s =
     paths_of (card_metadata st) config s +
     (if contains (sub_nonword sp) stask \<and> config = special_task_name sp tn
      then entry_paths sdate slast name s else {#})"
proof (cases "contains (sub_nonword sp) stask \<and> config = special_task_name sp tn")
  case False
  then show ?thesis
    unfolding paths_of_def config_entries_special_task_body by auto
next
  case True
  show ?thesis
  proof (cases "map_of (card_metadata st) config")
    case None
    with True show ?thesis
      unfolding paths_of_def config_entries_special_task_body
      by (auto simp: config_entries_def split_paths_extend_split split_paths_Cons
          split_paths_Nil entry_paths_def)
  next
    case (Some fe)
    with True show ?thesis
      unfolding paths_of_def config_entries_special_task_body
      by (auto simp: config_entries_def split_paths_extend_split split_paths_Cons
          split_paths_Nil entry_paths_def)
  qed
qed

lemma paths_of_fold_special_task_body:
  "paths_of (card_metadata (fold (special_task_body tn stask sdate slast name) sps st)) config s =
     paths_of (card_metadata st) config s +
     (\<Sum>c \<leftarrow> map (\<lambda>sp. special_task_name sp tn)
               (filter (\<lambda>sp. contains (sub_nonword sp) stask) sps).
        if config = c then entry_paths sdate slast name s else {#})"
  by (induction sps arbitrary: st) (simp_all add: paths_of_special_task_body)

lemma paths_of_second_loop_body:
  assumes "second_loop_body mr reg mx st f = Inr st1"
  shows "paths_of (card_metadata st1) config s =
           paths_of (card_metadata st) config s + file_paths reg mx f config s"
proof (cases "contains ''results_'' f")
  case True
  with assms show ?thesis
    by (simp add: second_loop_body_def Let_def file_paths_def paths_of_add_entry)
next
  case False
  with assms obtain last_date st0 where
    l: "map_of reg (second_task_name f) = Some last_date"
    and a: "add_entry mr (sub_nonword (second_task_name f)) (sub_nonword_dot (dirname f))
          (sub_nonword_dot last_date) (''**/'' @ basename f) st = Inr st0"
    and b: "st1 = fold (special_task_body (second_task_name f) (sub_nonword (second_task_name f))
          (sub_nonword_dot (dirname f)) (sub_nonword_dot last_date) (''**/'' @ basename f))
          SPECIAL_TASKS st0"
    by (auto simp: second_loop_body_def Let_def split: option.splits sum.splits)
  show ?thesis
    unfolding b paths_of_fold_special_task_body paths_of_add_entry [OF a]
    using False l by (simp add: file_paths_def)
qed

lemma paths_of_second_loop:
  "second_loop mr reg mx st fs = Inr st1 \<Longrightarrow>
   paths_of (card_metadata st1) config s =
     paths_of (card_metadata st) config s + (\<Sum>f \<leftarrow> fs. file_paths reg mx f config s)"
proof (induction fs arbitrary: st)
  case Nil
  then show ?case by simp
next
  case (Cons f fs)
  from Cons.prems obtain st0 where
    s: "second_loop_body mr reg mx st f = Inr st0" "second_loop mr reg mx st0 fs = Inr st1"
    by (auto split: sum.splits)
  show ?case
    unfolding Cons.IH [OF s(2)] paths_of_second_loop_body [OF s(1)] by simp
qed

section \<open>The last date of each task\<close>

lemma fromisoformat_error: "fromisoformat s = Inl e \<Longrightarrow> e = ValueError"
  by (auto simp: fromisoformat_def Let_def split: option.splits if_splits prod.splits)

lemma dt_key_inject: "dt_key a = dt_key b \<Longrightarrow> a = b"
  by (simp add: dt_key_def)

lemma dt_less_irrefl: "\<not> dt_less a a"
  by (simp add: dt_less_def)

lemma dt_less_trans: "dt_less a b \<Longrightarrow> dt_less b c \<Longrightarrow> dt_less a c"
  by (simp add: dt_less_def)

lemma dt_less_total: "dt_less a b \<or> a = b \<or> dt_less b a"
  using dt_key_inject [of a b] by (auto simp: dt_less_def)

lemma is_last_date_unique: "is_last_date D a \<Longrightarrow> is_last_date D b \<Longrightarrow> a = b"
  using dt_less_total [of a b] by (auto simp: is_last_date_def)

lemma is_last_date_single: "is_last_date {d} d"
  by (simp add: is_last_date_def dt_less_irrefl)

lemma is_last_date_dt_max:
  assumes "is_last_date (insert (dt_max a b) X) m"
  shows "is_last_date (insert a (insert b X)) m"
proof -
  from assms have m: "m \<in> insert (dt_max a b) X" and
    le: "\<And>x. x \<in> insert (dt_max a b) X \<Longrightarrow> \<not> dt_less m x"
    by (auto simp: is_last_date_def)
  have "m \<in> insert a (insert b X)"
    using m by (auto simp: dt_max_def split: if_splits)
  moreover have "\<not> dt_less m a" "\<not> dt_less m b"
    using le [of "dt_max a b"] dt_less_trans [of m a b] dt_less_total [of a b]
      dt_less_trans [of m b a]
    by (auto simp: dt_max_def split: if_splits)
  ultimately show ?thesis
    using le by (auto simp: is_last_date_def)
qed

lemma first_loop_body_eq:
  "first_loop_body r f =
     (if contains ''results_'' f then Inr r
      else (case file_date f of
              Inl e \<Rightarrow> Inl e
            | Inr d \<Rightarrow>
                Inr (AList.update (first_task_name f)
                       (case map_of r (first_task_name f) of
                          Some d0 \<Rightarrow> dt_max d0 d | None \<Rightarrow> d) r)))"
  by (simp add: first_loop_body_def file_date_def Let_def)

lemma task_dates_Cons:
  "task_dates (f # fs) t =
     (if \<not> contains ''results_'' f \<and> first_task_name f = t
      then (case file_date f of Inl e \<Rightarrow> {} | Inr d \<Rightarrow> {d}) else {}) \<union> task_dates fs t"
  by (auto simp: task_dates_def split: sum.splits)

lemma task_dates_Nil: "task_dates [] t = {}"
  by (simp add: task_dates_def)

lemma task_dates_cong: "set fs = set gs \<Longrightarrow> task_dates fs t = task_dates gs t"
  by (simp add: task_dates_def)


lemma first_loop_last_date:
  "first_loop r fs = Inr r' \<Longrightarrow>
     (case map_of r' t of
        None \<Rightarrow> map_of r t = None \<and> task_dates fs t = {}
      | Some d \<Rightarrow> is_last_date (set_option (map_of r t) \<union> task_dates fs t) d)"
proof (induction fs arbitrary: r)
  case Nil
  then show ?case
    by (simp add: task_dates_Nil is_last_date_single split: option.splits)
next
  case (Cons f fs)
  from Cons.prems obtain r1 where
    r1: "first_loop_body r f = Inr r1" and rest: "first_loop r1 fs = Inr r'"
    by (auto split: sum.splits)
  note IH = Cons.IH [OF rest]
  show ?case
  proof (cases "contains ''results_'' f")
    case True
    with r1 have "r1 = r"
      by (simp add: first_loop_body_eq)
    with IH True show ?thesis
      by (auto simp: task_dates_Cons split: option.splits)
  next
    case False
    with r1 obtain d1 where d1: "file_date f = Inr d1"
      and r1_eq: "r1 = AList.update (first_task_name f)
                    (case map_of r (first_task_name f) of
                       Some d0 \<Rightarrow> dt_max d0 d1 | None \<Rightarrow> d1) r"
      by (auto simp: first_loop_body_eq split: sum.splits)
    show ?thesis
    proof (cases "first_task_name f = t")
      case other: False
      then have "map_of r1 t = map_of r t"
        by (simp add: r1_eq update_conv')
      with IH other show ?thesis
        by (auto simp: task_dates_Cons split: option.splits)
    next
      case same: True
      show ?thesis
      proof (cases "map_of r t")
        case None
        with same have "map_of r1 t = Some d1"
          by (simp add: r1_eq update_conv')
        with IH None same False d1 show ?thesis
          by (auto simp: task_dates_Cons split: option.splits)
      next
        case (Some d0)
        with same have m1: "map_of r1 t = Some (dt_max d0 d1)"
          by (simp add: r1_eq update_conv')
        with IH obtain d where d: "map_of r' t = Some d"
          and l: "is_last_date (insert (dt_max d0 d1) (task_dates fs t)) d"
          by (auto split: option.splits)
        from is_last_date_dt_max [OF l] d Some same False d1 show ?thesis
          by (simp add: task_dates_Cons insert_commute)
      qed
    qed
  qed
qed

lemma is_last_date_empty: "\<not> is_last_date {} d"
  by (simp add: is_last_date_def)

lemma first_loop_perm:
  assumes "set fs = set gs" and "first_loop [] fs = Inr r1" and "first_loop [] gs = Inr r2"
  shows "map_of r1 = map_of r2"
proof
  fix t
  let ?D = "task_dates fs t"
  have c1: "case map_of r1 t of None \<Rightarrow> ?D = {} | Some d \<Rightarrow> is_last_date ?D d"
    using first_loop_last_date [OF assms(2), of t] by (auto split: option.splits)
  have c2: "case map_of r2 t of None \<Rightarrow> ?D = {} | Some d \<Rightarrow> is_last_date ?D d"
    using first_loop_last_date [OF assms(3), of t] task_dates_cong [OF assms(1), of t]
    by (auto split: option.splits)
  show "map_of r1 t = map_of r2 t"
  proof (cases "map_of r1 t")
    case None
    with c1 c2 show ?thesis
      by (auto simp: is_last_date_empty split: option.splits)
  next
    case (Some d)
    with c1 c2 show ?thesis
      by (auto simp: is_last_date_empty split: option.splits dest: is_last_date_unique)
  qed
qed

lemma first_loop_error: "first_loop r fs = Inl e \<Longrightarrow> e = ValueError"
proof (induction fs arbitrary: r)
  case Nil
  then show ?case by simp
next
  case (Cons f fs)
  then show ?case
    by (auto simp: first_loop_body_eq file_date_def split: sum.splits if_splits
        dest: fromisoformat_error)
qed

lemma first_loop_fails_iff:
  "(\<exists>e. first_loop r fs = Inl e) \<longleftrightarrow>
   (\<exists>f. f \<in> set fs \<and> \<not> contains ''results_'' f \<and> (\<exists>e. file_date f = Inl e))"
proof (induction fs arbitrary: r)
  case Nil
  then show ?case by simp
next
  case (Cons f fs)
  show ?case
  proof (cases "first_loop_body r f")
    case (Inl e)
    then show ?thesis
      by (auto simp: first_loop_body_eq split: if_splits sum.splits)
  next
    case (Inr r1)
    then have "\<not> (\<not> contains ''results_'' f \<and> (\<exists>e. file_date f = Inl e))"
      by (auto simp: first_loop_body_eq split: if_splits)
    with Inr Cons.IH [of r1] show ?thesis
      by auto
  qed
qed

lemma first_loop_distinct:
  "first_loop r fs = Inr r' \<Longrightarrow> distinct (map fst r) \<Longrightarrow> distinct (map fst r')"
proof (induction fs arbitrary: r)
  case Nil
  then show ?case by simp
next
  case (Cons f fs)
  from Cons.prems(1) obtain r1 where
    r1: "first_loop_body r f = Inr r1" and rest: "first_loop r1 fs = Inr r'"
    by (auto split: sum.splits)
  from r1 Cons.prems(2) have "distinct (map fst r1)"
    by (auto simp: first_loop_body_eq distinct_update split: if_splits sum.splits)
  from Cons.IH [OF rest this] show ?case .
qed

lemma foldl_last_date:
  "is_last_date (insert d0 (snd ` set xs))
     (foldl (\<lambda>m (t, d). if dt_less m d then d else m) d0 xs)"
proof (induction xs arbitrary: d0)
  case Nil
  then show ?case
    by (simp add: is_last_date_single)
next
  case (Cons x xs)
  obtain t d where x: "x = (t, d)"
    by (cases x)
  from Cons.IH [of "dt_max d0 d"]
  have "is_last_date (insert (dt_max d0 d) (snd ` set xs))
          (foldl (\<lambda>m (t, d). if dt_less m d then d else m) (dt_max d0 d) xs)" .
  from is_last_date_dt_max [OF this] show ?case
    by (simp add: x dt_max_def)
qed

lemma max_last_eval_date_last:
  "max_last_eval_date r = Inr mx \<Longrightarrow> is_last_date (snd ` set r) mx"
proof (cases r)
  case Nil
  then show "max_last_eval_date r = Inr mx \<Longrightarrow> ?thesis"
    by (simp add: max_last_eval_date_def)
next
  case (Cons p ps)
  obtain t0 d0 where p: "p = (t0, d0)"
    by (cases p)
  assume "max_last_eval_date r = Inr mx"
  with Cons p have "mx = foldl (\<lambda>m (t, d). if dt_less m d then d else m) d0 ((t0, d0) # ps)"
    by (simp add: max_last_eval_date_def)
  with foldl_last_date [of d0 "(t0, d0) # ps"] Cons p show ?thesis
    by simp
qed

lemma max_last_eval_date_Inl:
  "max_last_eval_date r = Inl e \<longleftrightarrow> r = [] \<and> e = IndexError"
  by (auto simp: max_last_eval_date_def split: list.splits)

lemma max_last_eval_date_perm:
  assumes "map_of r1 = map_of r2" and "distinct (map fst r1)" and "distinct (map fst r2)"
  shows "max_last_eval_date r1 = max_last_eval_date r2"
proof -
  from assms have s: "set r1 = set r2"
    by (simp add: map_of_inject_set)
  show ?thesis
  proof (cases "max_last_eval_date r1")
    case (Inl e)
    then have "r1 = []" "e = IndexError"
      by (simp_all add: max_last_eval_date_Inl)
    with s have "r2 = []"
      by simp
    with Inl \<open>r1 = []\<close> show ?thesis
      by simp
  next
    case (Inr m1)
    show ?thesis
    proof (cases "max_last_eval_date r2")
      case (Inl e)
      then have "r2 = []"
        by (simp add: max_last_eval_date_Inl)
      with s have "r1 = []"
        by simp
      with Inr show ?thesis
        by (simp add: max_last_eval_date_def)
    next
      case m2: (Inr m2)
      from max_last_eval_date_last [OF Inr] max_last_eval_date_last [OF m2] s
      have "m1 = m2"
        by (auto dest: is_last_date_unique)
      with Inr m2 show ?thesis
        by simp
    qed
  qed
qed

section \<open>Listings in another order\<close>

lemma configs_add_entry:
  assumes "add_entry mr stask sdate slast name st = Inr st1"
  shows "fst ` set (card_metadata st1) = insert stask (fst ` set (card_metadata st))"
proof -
  from assms obtain v w where
    "card_metadata st1 = AList.update stask v (card_metadata st) \<or>
     card_metadata st1 = AList.update stask v (AList.update stask w (card_metadata st))"
    by (auto simp: add_entry_def Let_def split: if_splits)
  then show ?thesis
    by (elim disjE) (simp_all add: dom_update)
qed

lemma configs_special_task_body:
  "fst ` set (card_metadata (special_task_body tn stask sdate slast name sp st)) =
     (if contains (sub_nonword sp) stask
      then insert (special_task_name sp tn) (fst ` set (card_metadata st))
      else fst ` set (card_metadata st))"
  by (auto simp: special_task_body_def Let_def dom_update)

lemma configs_fold_special_task_body:
  "fst ` set (card_metadata (fold (special_task_body tn stask sdate slast name) sps st)) =
     fst ` set (card_metadata st) \<union>
     set (map (\<lambda>sp. special_task_name sp tn)
            (filter (\<lambda>sp. contains (sub_nonword sp) stask) sps))"
  by (induction sps arbitrary: st) (auto simp: configs_special_task_body)

lemma configs_second_loop_body:
  assumes "second_loop_body mr reg mx st f = Inr st1"
  shows "fst ` set (card_metadata st1) = fst ` set (card_metadata st) \<union> file_configs f"
proof (cases "contains ''results_'' f")
  case True
  with assms show ?thesis
    by (auto simp: second_loop_body_def Let_def file_configs_def dest: configs_add_entry)
next
  case False
  with assms obtain last_date st0 where
    a: "add_entry mr (sub_nonword (second_task_name f)) (sub_nonword_dot (dirname f))
          (sub_nonword_dot last_date) (''**/'' @ basename f) st = Inr st0"
    and b: "st1 = fold (special_task_body (second_task_name f) (sub_nonword (second_task_name f))
          (sub_nonword_dot (dirname f)) (sub_nonword_dot last_date) (''**/'' @ basename f))
          SPECIAL_TASKS st0"
    by (auto simp: second_loop_body_def Let_def split: option.splits sum.splits)
  show ?thesis
    unfolding b configs_fold_special_task_body configs_add_entry [OF a]
    using False by (auto simp: file_configs_def)
qed

lemma configs_second_loop:
  "second_loop mr reg mx st fs = Inr st1 \<Longrightarrow>
   fst ` set (card_metadata st1) = fst ` set (card_metadata st) \<union> \<Union> (file_configs ` set fs)"
proof (induction fs arbitrary: st)
  case Nil
  then show ?case by simp
next
  case (Cons f fs)
  from Cons.prems obtain st0 where
    s: "second_loop_body mr reg mx st f = Inr st0" "second_loop mr reg mx st0 fs = Inr st1"
    by (auto split: sum.splits)
  show ?case
    unfolding Cons.IH [OF s(2)] configs_second_loop_body [OF s(1)] by auto
qed

lemma file_paths_cong:
  "map_of reg1 = map_of reg2 \<Longrightarrow> file_paths reg1 mx = file_paths reg2 mx"
  by (intro ext) (simp add: file_paths_def)

lemma sum_list_perm:
  fixes g :: "'a \<Rightarrow> 'b multiset"
  assumes "mset gs = mset fs"
  shows "sum_list (map g gs) = sum_list (map g fs)"
proof -
  have "sum_list (map g gs) = sum_mset (image_mset g (mset gs))"
    by (simp flip: sum_mset_sum_list)
  also have "\<dots> = sum_mset (image_mset g (mset fs))"
    by (simp add: assms)
  also have "\<dots> = sum_list (map g fs)"
    by (simp flip: sum_mset_sum_list)
  finally show ?thesis .
qed

lemma paths_of_empty: "paths_of [] config s = {#}"
  by (simp add: paths_of_def config_entries_def split_paths_def)

lemma map_of_iso_dates_cong:
  "map_of r1 = map_of r2 \<Longrightarrow> map_of (iso_dates r1) = map_of (iso_dates r2)"
  by (intro ext) (simp add: map_of_iso_dates)

lemma build_configs_Inr:
  assumes "build_configs mr fs = Inr c"
  obtains r m st where "first_loop [] fs = Inr r" and "max_last_eval_date r = Inr m"
    and "second_loop mr (iso_dates r) (isoformat m)
           \<lparr>card_metadata = [], former_entry_bound = False\<rparr> fs = Inr st"
    and "c = card_metadata st"
  using assms by (auto simp: build_configs_def split: sum.splits)

lemma build_configs_perm:
  assumes p: "mset gs = mset fs"
    and f: "build_configs mr1 fs = Inr c1" and g: "build_configs mr2 gs = Inr c2"
  shows "fst ` set c2 = fst ` set c1" and "paths_of c2 = paths_of c1"
proof -
  from f obtain r1 m1 st1 where
    f1: "first_loop [] fs = Inr r1" and f2: "max_last_eval_date r1 = Inr m1"
    and f3: "second_loop mr1 (iso_dates r1) (isoformat m1)
           \<lparr>card_metadata = [], former_entry_bound = False\<rparr> fs = Inr st1"
    and f4: "c1 = card_metadata st1"
    by (rule build_configs_Inr)
  from g obtain r2 m2 st2 where
    g1: "first_loop [] gs = Inr r2" and g2: "max_last_eval_date r2 = Inr m2"
    and g3: "second_loop mr2 (iso_dates r2) (isoformat m2)
           \<lparr>card_metadata = [], former_entry_bound = False\<rparr> gs = Inr st2"
    and g4: "c2 = card_metadata st2"
    by (rule build_configs_Inr)
  from p have s: "set fs = set gs"
    by (metis set_mset_mset)
  have r: "map_of r1 = map_of r2"
    using first_loop_perm [OF s f1 g1] .
  have "max_last_eval_date r1 = max_last_eval_date r2"
    using r first_loop_distinct [OF f1] first_loop_distinct [OF g1]
    by (intro max_last_eval_date_perm) simp_all
  with f2 g2 have m: "m1 = m2"
    by simp
  have fp: "file_paths (iso_dates r2) (isoformat m2) = file_paths (iso_dates r1) (isoformat m1)"
    unfolding m by (rule file_paths_cong, rule map_of_iso_dates_cong, rule r [symmetric])
  show "fst ` set c2 = fst ` set c1"
    unfolding f4 g4 configs_second_loop [OF f3] configs_second_loop [OF g3] s by simp
  show "paths_of c2 = paths_of c1"
  proof (intro ext)
    fix config name
    have "paths_of c2 config name =
            (\<Sum>f \<leftarrow> gs. file_paths (iso_dates r1) (isoformat m1) f config name)"
      unfolding g4 paths_of_second_loop [OF g3] fp by (simp add: paths_of_empty)
    also have "\<dots> = (\<Sum>f \<leftarrow> fs. file_paths (iso_dates r1) (isoformat m1) f config name)"
      by (rule sum_list_perm [OF p])
    also have "\<dots> = paths_of c1 config name"
      unfolding f4 paths_of_second_loop [OF f3] by (simp add: paths_of_empty)
    finally show "paths_of c2 config name = paths_of c1 config name" .
  qed
qed

lemma add_entry_True: "\<exists>st1. add_entry True stask sdate slast name st = Inr st1"
  by (simp add: add_entry_def Let_def)

lemma add_entry_True_not_Inl: "add_entry True stask sdate slast name st \<noteq> Inl e"
  by (simp add: add_entry_def Let_def)

lemma second_loop_body_True_Inl:
  "second_loop_body True reg mx st f = Inl e \<longleftrightarrow>
     \<not> contains ''results_'' f \<and> map_of reg (second_task_name f) = None \<and> e = KeyError"
proof (cases "contains ''results_'' f")
  case True
  then show ?thesis
    by (simp add: second_loop_body_def Let_def add_entry_True_not_Inl)
next
  case False
  show ?thesis
  proof (cases "map_of reg (second_task_name f)")
    case None
    with False show ?thesis
      by (auto simp: second_loop_body_def Let_def)
  next
    case (Some last_date)
    obtain st1 where "add_entry True (sub_nonword (second_task_name f))
        (sub_nonword_dot (dirname f)) (sub_nonword_dot last_date) (''**/'' @ basename f) st =
        Inr st1"
      using add_entry_True by blast
    with False Some show ?thesis
      by (simp add: second_loop_body_def Let_def)
  qed
qed

lemma second_loop_True_Inl:
  "second_loop True reg mx st fs = Inl e \<longleftrightarrow>
     e = KeyError \<and>
     (\<exists>f. f \<in> set fs \<and> \<not> contains ''results_'' f \<and> map_of reg (second_task_name f) = None)"
proof (induction fs arbitrary: st)
  case Nil
  then show ?case by simp
next
  case (Cons f fs)
  show ?case
  proof (cases "second_loop_body True reg mx st f")
    case (Inl e')
    then have "\<not> contains ''results_'' f \<and> map_of reg (second_task_name f) = None \<and>
        e' = KeyError"
      by (simp add: second_loop_body_True_Inl)
    with Inl show ?thesis
      by auto
  next
    case (Inr st0)
    have "\<not> (\<not> contains ''results_'' f \<and> map_of reg (second_task_name f) = None)"
      using second_loop_body_True_Inl [of reg mx st f KeyError] Inr by auto
    with Inr Cons.IH [of st0] show ?thesis
      by auto
  qed
qed

lemma map_of_empty_Nil: "map_of r = map_of [] \<Longrightarrow> r = []"
  by (cases r) (auto dest: fun_cong)

lemma build_configs_True_Inl_perm:
  assumes p: "mset gs = mset fs" and f: "build_configs True fs = Inl e"
  shows "build_configs True gs = Inl e"
proof -
  from p have s: "set fs = set gs"
    by (metis set_mset_mset)
  show ?thesis
  proof (cases "first_loop [] fs")
    case (Inl e1)
    with f have e: "e = ValueError"
      by (auto simp: build_configs_def dest: first_loop_error)
    from Inl have "\<exists>e. first_loop [] fs = Inl e"
      by blast
    then have "\<exists>f. f \<in> set fs \<and> \<not> contains ''results_'' f \<and> (\<exists>e. file_date f = Inl e)"
      by (rule first_loop_fails_iff [THEN iffD1])
    then have "\<exists>f. f \<in> set gs \<and> \<not> contains ''results_'' f \<and> (\<exists>e. file_date f = Inl e)"
      unfolding s .
    then have "\<exists>e. first_loop [] gs = Inl e"
      by (rule first_loop_fails_iff [THEN iffD2])
    then obtain e2 where "first_loop [] gs = Inl e2"
      by blast
    moreover from this have "e2 = ValueError"
      by (rule first_loop_error)
    ultimately show ?thesis
      by (simp add: build_configs_def e)
  next
    case r1: (Inr r1)
    have "\<not> (\<exists>e. first_loop [] gs = Inl e)"
    proof
      assume "\<exists>e. first_loop [] gs = Inl e"
      then have "\<exists>f. f \<in> set gs \<and> \<not> contains ''results_'' f \<and> (\<exists>e. file_date f = Inl e)"
        by (rule first_loop_fails_iff [THEN iffD1])
      then have "\<exists>f. f \<in> set fs \<and> \<not> contains ''results_'' f \<and> (\<exists>e. file_date f = Inl e)"
        unfolding s .
      then have "\<exists>e. first_loop [] fs = Inl e"
        by (rule first_loop_fails_iff [THEN iffD2])
      with r1 show False
        by simp
    qed
    then obtain r2 where r2: "first_loop [] gs = Inr r2"
      by (cases "first_loop [] gs") auto
    have r: "map_of r1 = map_of r2"
      using first_loop_perm [OF s r1 r2] .
    have mx: "max_last_eval_date r1 = max_last_eval_date r2"
      using r first_loop_distinct [OF r1] first_loop_distinct [OF r2]
      by (intro max_last_eval_date_perm) simp_all
    show ?thesis
    proof (cases "max_last_eval_date r1")
      case (Inl e1)
      with f r1 have "e = e1"
        by (simp add: build_configs_def)
      with Inl mx r2 show ?thesis
        by (simp add: build_configs_def)
    next
      case (Inr m)
      with f r1 have l: "second_loop True (iso_dates r1) (isoformat m)
          \<lparr>card_metadata = [], former_entry_bound = False\<rparr> fs = Inl e"
        by (auto simp: build_configs_def split: sum.splits)
      have "map_of (iso_dates r1) = map_of (iso_dates r2)"
        using r by (rule map_of_iso_dates_cong)
      with l have "second_loop True (iso_dates r2) (isoformat m)
          \<lparr>card_metadata = [], former_entry_bound = False\<rparr> gs = Inl e"
        unfolding second_loop_True_Inl s by simp
      with Inr mx r2 show ?thesis
        by (simp add: build_configs_def)
    qed
  qed
qed

section \<open>Permutations of the listing\<close>

text \<open>
  C1, as stated, fails: entries are appended in the order in which the files are
  listed.  The listing of the two runs gives, for the task, the entries of January, of
  February and \<^verbatim>\<open>latest\<close>; the same files listed with the newest run first give the
  entries of February, \<^verbatim>\<open>latest\<close> and of January.
\<close>

theorem listing_order_counterexample:
  "mset listing_two_runs_newest_first = mset listing_two_runs \<and>
   recreate_metadata_card listing_two_runs = Inr card_two_runs \<and>
   recreate_metadata_card listing_two_runs_newest_first = Inr card_two_runs_newest_first \<and>
   card_two_runs_newest_first \<noteq> card_two_runs \<and>
   map_of card_two_runs_newest_first ''mmlu_us_history'' \<noteq>
     map_of card_two_runs ''mmlu_us_history''"
proof -
  have "mset listing_two_runs_newest_first = mset listing_two_runs"
    by (simp add: listing_two_runs_def listing_two_runs_newest_first_def)
  moreover have "recreate_metadata_card listing_two_runs = Inr card_two_runs"
    by code_simp
  moreover have "recreate_metadata_card listing_two_runs_newest_first =
      Inr card_two_runs_newest_first"
    by code_simp
  moreover have "card_two_runs_newest_first \<noteq> card_two_runs"
    by code_simp
  moreover have "map_of card_two_runs_newest_first ''mmlu_us_history'' \<noteq>
      map_of card_two_runs ''mmlu_us_history''"
    by code_simp
  ultimately show ?thesis
    by simp
qed

text \<open>
  C1, amended.  For a listing and any permutation of it: when the function completes on
  both, the two cards have the same config names and, for every config name and split
  name, the same paths (as a multiset over the entries of that name); the order of the
  entries and of the paths follows the listing.  With more than one \<^verbatim>\<open>.json\<close> file
  (\<^verbatim>\<open>multiple_results\<close>), the function also ends the same way on both: with the same
  exception, or with a card.
\<close>

theorem listing_order:
  assumes "mset files' = mset files"
  shows "(\<forall>c c'. recreate_metadata_card files = Inr c \<longrightarrow>
                  recreate_metadata_card files' = Inr c' \<longrightarrow>
                  fst ` set c' = fst ` set c \<and> paths_of c' = paths_of c) \<and>
         (1 < length (filter (contains ''.json'') files) \<longrightarrow>
            (\<forall>e. recreate_metadata_card files = Inl e \<longrightarrow>
                  recreate_metadata_card files' = Inl e) \<and>
            (\<forall>c. recreate_metadata_card files = Inr c \<longrightarrow>
                  (\<exists>c'. recreate_metadata_card files' = Inr c')))"
proof -
  let ?pf = "filter (contains ''.parquet'') files"
  let ?pf' = "filter (contains ''.parquet'') files'"
  let ?mr = "1 < length (filter (contains ''.json'') files)"
  let ?mr' = "1 < length (filter (contains ''.json'') files')"
  have pf: "mset ?pf' = mset ?pf"
    using assms by (simp add: mset_filter)
  have "mset (filter (contains ''.json'') files') = mset (filter (contains ''.json'') files)"
    using assms by (simp add: mset_filter)
  then have "length (filter (contains ''.json'') files') =
      length (filter (contains ''.json'') files)"
    by (rule mset_eq_length)
  then have mr: "?mr' = ?mr"
    by simp
  have eq: "recreate_metadata_card files = build_configs ?mr ?pf"
    "recreate_metadata_card files' = build_configs ?mr ?pf'"
    using mr by (simp_all add: recreate_metadata_card_def)
  have 1: "fst ` set c' = fst ` set c \<and> paths_of c' = paths_of c"
    if "recreate_metadata_card files = Inr c" "recreate_metadata_card files' = Inr c'" for c c'
    using build_configs_perm [OF pf] that unfolding eq by blast
  have 2: "recreate_metadata_card files' = Inl e"
    if "?mr" "recreate_metadata_card files = Inl e" for e
    using build_configs_True_Inl_perm [OF pf] that unfolding eq by simp
  have 3: "\<exists>c'. recreate_metadata_card files' = Inr c'"
    if "?mr" "recreate_metadata_card files = Inr c" for c
  proof (cases "recreate_metadata_card files'")
    case (Inl e)
    with build_configs_True_Inl_perm [OF pf [symmetric]] that show ?thesis
      unfolding eq by simp
  next
    case (Inr c')
    then show ?thesis by blast
  qed
  from 1 2 3 show ?thesis
    by blast
qed

theorem listing_order_witness:
  "recreate_metadata_card listing_two_runs = Inr card_two_runs \<and>
   recreate_metadata_card listing_two_runs_newest_first = Inr card_two_runs_newest_first \<and>
   fst ` set card_two_runs_newest_first = fst ` set card_two_runs \<and>
   paths_of card_two_runs_newest_first = paths_of card_two_runs"
proof -
  have m: "mset listing_two_runs_newest_first = mset listing_two_runs"
    by (simp add: listing_two_runs_def listing_two_runs_newest_first_def)
  have a: "recreate_metadata_card listing_two_runs = Inr card_two_runs"
    by code_simp
  have b: "recreate_metadata_card listing_two_runs_newest_first = Inr card_two_runs_newest_first"
    by code_simp
  from listing_order [OF m, THEN conjunct1, rule_format, OF a b] a b show ?thesis
    by simp
qed

section \<open>Split names within a config\<close>

text \<open>
  C6 fails on the code.  With two result files (\<^verbatim>\<open>multiple_results\<close>) and two parquet
  shards of one task in the directory of one run, the function completes, and the
  config of the task has two entries with the same dated split name and two entries
  named \<^verbatim>\<open>latest\<close>: lines 364--368 and 379--382 append a new entry for every file,
  where the special configs (lines 407--441) extend the entry of the same name.
\<close>

theorem shards_repeat_split_names:
  "recreate_metadata_card listing_shards = Inr card_shards \<and>
   map split (config_entries card_shards ''mmlu_us_history'') =
     [''2024_01_15T10_00_00.123456'', ''latest'', ''2024_01_15T10_00_00.123456'', ''latest''] \<and>
   length (filter (\<lambda>d. split d = ''latest'') (config_entries card_shards ''mmlu_us_history'')) = 2 \<and>
   \<not> distinct (map split (filter (\<lambda>d. split d \<noteq> ''latest'')
                    (config_entries card_shards ''mmlu_us_history'')))"
  by code_simp

section \<open>Two runs of one task\<close>






section \<open>Subtasks of a special task\<close>





section \<open>The split \<^verbatim>\<open>latest\<close>\<close>

lemma sub_nonword_dot_latest: "sub_nonword_dot x = ''latest'' \<Longrightarrow> x = ''latest''"
  by (auto simp: sub_nonword_dot_def map_eq_Cons_conv split: if_splits)

lemma file_date_latest: "fromisoformat (join '':'' (rsplit (CHR ''-'') 2 ''latest'')) = Inl ValueError"
  by code_simp

lemma file_date_not_latest:
  assumes "file_date f = Inr d"
  shows "sub_nonword_dot (dirname f) \<noteq> ''latest''"
proof
  assume "sub_nonword_dot (dirname f) = ''latest''"
  then have "dirname f = ''latest''"
    by (rule sub_nonword_dot_latest)
  with assms file_date_latest show False
    by (simp add: file_date_def)
qed

lemma isoformat_not_latest: "sub_nonword_dot (isoformat d) \<noteq> ''latest''"
proof
  assume "sub_nonword_dot (isoformat d) = ''latest''"
  then have "length (sub_nonword_dot (isoformat d)) = 6"
    by simp
  then show False
    by (simp add: sub_nonword_dot_def length_isoformat split: if_splits)
qed

lemma sub_nonword_dot_replace:
  "sub_nonword_dot (py_replace '':'' ''-'' s) = sub_nonword_dot s"
  by (induction s) (simp_all add: sub_nonword_dot_def is_word_def)

lemma sub_nonword_dot_date_id: "sub_nonword_dot (date_id d) = sub_nonword_dot (isoformat d)"
  by (simp add: date_id_def sub_nonword_dot_replace)

lemma first_loop_file_date:
  assumes "first_loop r fs = Inr r'" and "f \<in> set fs" and "\<not> contains ''results_'' f"
  shows "\<exists>d. file_date f = Inr d"
proof (cases "file_date f")
  case (Inl e)
  with assms(2,3) have "\<exists>e. first_loop r fs = Inl e"
    by (subst first_loop_fails_iff) blast
  with assms(1) show ?thesis
    by simp
next
  case (Inr d)
  then show ?thesis by blast
qed

lemma entry_paths_latest:
  assumes "sdate \<noteq> ''latest''" and "slast \<noteq> ''latest''"
  shows "entry_paths sdate slast p ''latest'' = (if sdate = slast then {#p#} else {#})"
    and "entry_paths sdate slast p slast = (if sdate = slast then {#p#} else {#})"
  using assms by (auto simp: entry_paths_def)

lemma file_paths_outside:
  "config \<notin> file_configs f \<Longrightarrow> file_paths reg mx f config s = {#}"
  by (auto simp: file_paths_def file_configs_def SPECIAL_TASKS_def split: option.splits)

lemma file_paths_task:
  assumes "\<not> contains ''results_'' f" and "map_of reg (second_task_name f) = Some last_date"
    and "sub_nonword_dot (dirname f) \<noteq> ''latest''" and "sub_nonword_dot last_date \<noteq> ''latest''"
  shows "file_paths reg mx f config ''latest'' =
           file_paths reg mx f config (sub_nonword_dot last_date)"
proof -
  have "entry_paths (sub_nonword_dot (dirname f)) (sub_nonword_dot last_date) p ''latest'' =
        entry_paths (sub_nonword_dot (dirname f)) (sub_nonword_dot last_date) p
          (sub_nonword_dot last_date)" for p
    by (simp only: entry_paths_latest [OF assms(3,4)])
  with assms(1,2) show ?thesis
    by (simp add: file_paths_def cong: if_cong)
qed

lemma file_paths_own:
  assumes "\<not> contains ''results_'' f" and "map_of reg (second_task_name f) = Some last_date"
    and "sub_nonword_dot (dirname f) = sub_nonword_dot last_date"
  shows "''**/'' @ basename f \<in># file_paths reg mx f (sub_nonword (second_task_name f)) ''latest''"
  using assms by (simp add: file_paths_def entry_paths_def)

lemma file_paths_member:
  assumes "p \<in># file_paths reg mx f config ''latest''" and "\<not> contains ''results_'' f"
    and "map_of reg (second_task_name f) = Some last_date"
    and "sub_nonword_dot (dirname f) \<noteq> ''latest''"
  shows "p = ''**/'' @ basename f \<and> sub_nonword_dot (dirname f) = sub_nonword_dot last_date"
  using assms
  by (auto simp: file_paths_def entry_paths_def SPECIAL_TASKS_def split: if_splits)

lemma in_sum_list:
  fixes g :: "'a \<Rightarrow> 'b multiset"
  shows "p \<in># sum_list (map g fs) \<longleftrightarrow> (\<exists>f \<in> set fs. p \<in># g f)"
  by (induction fs) auto

lemma second_loop_paths:
  assumes "recreate_metadata_card files_in_repo = Inr c"
  shows "\<exists>reg mx.
           first_loop [] (filter (contains ''.parquet'') files_in_repo) = Inr reg \<and>
           (\<forall>config s. paths_of c config s =
              (\<Sum>f \<leftarrow> filter (contains ''.parquet'') files_in_repo.
                 file_paths (iso_dates reg) mx f config s))"
proof -
  let ?pf = "filter (contains ''.parquet'') files_in_repo"
  let ?mr = "1 < length (filter (contains ''.json'') files_in_repo)"
  from assms have "build_configs ?mr ?pf = Inr c"
    by (simp add: recreate_metadata_card_def)
  then obtain r m st where
    r: "first_loop [] ?pf = Inr r"
    and s: "second_loop ?mr (iso_dates r) (isoformat m)
              \<lparr>card_metadata = [], former_entry_bound = False\<rparr> ?pf = Inr st"
    and c: "c = card_metadata st"
    by (rule build_configs_Inr)
  have "paths_of c config s = (\<Sum>f \<leftarrow> ?pf. file_paths (iso_dates r) (isoformat m) f config s)"
    for config s
    using paths_of_second_loop [OF s, of config s] by (simp add: c paths_of_empty)
  with r show ?thesis
    by blast
qed

lemma registry_last_date:
  assumes "first_loop [] fs = Inr reg" and "is_last_date (task_dates fs t) d"
  shows "map_of reg t = Some d"
proof (cases "map_of reg t")
  case None
  with first_loop_last_date [OF assms(1), of t] have "task_dates fs t = {}"
    by simp
  with assms(2) is_last_date_empty show ?thesis
    by simp
next
  case (Some d')
  with first_loop_last_date [OF assms(1), of t] have "is_last_date (task_dates fs t) d'"
    by simp
  from is_last_date_unique [OF this assms(2)] Some show ?thesis
    by simp
qed

text \<open>
  C2, as stated, fails.  A task named \<^verbatim>\<open>lighteval|mmlu|5\<close> shares its config with the
  special task: the file of the subtask, of January, is the last of its own task, so
  lines 425--441 add its path to \<^verbatim>\<open>latest\<close>, which then has a path that the split of
  February, the last date of \<^verbatim>\<open>lighteval|mmlu|5\<close>, does not have.  And a file in a
  directory named with \<^verbatim>\<open>.000000\<close> gets no \<^verbatim>\<open>latest\<close> entry at all: \<^verbatim>\<open>isoformat\<close>
  leaves the microseconds out when they are zero, and line 378 compares the sanitised
  names.
\<close>

theorem latest_counterexample:
  "recreate_metadata_card [details_mmlu_feb, details_us_history] = Inr card_umbrella \<and>
   first_loop [] [details_mmlu_feb, details_us_history] =
     Inr [(''lighteval|mmlu|5'', run_feb), (''lighteval|mmlu:us_history|5'', run_jan)] \<and>
   sub_nonword ''lighteval|mmlu|5'' = ''lighteval_mmlu_5'' \<and>
   sub_nonword_dot (isoformat run_feb) = ''2024_02_15T10_00_00.123456'' \<and>
   config_entries card_umbrella ''lighteval_mmlu_5'' =
     [\<lparr>split = ''2024_02_15T10_00_00.123456'',
         path = [''**/details_lighteval|mmlu|5_2024-02-15T10-00-00.123456.parquet'',
                 ''**/details_lighteval|mmlu|5_2024-02-15T10-00-00.123456.parquet'']\<rparr>,
      \<lparr>split = ''latest'',
         path = [''**/details_lighteval|mmlu|5_2024-02-15T10-00-00.123456.parquet'',
                 ''**/details_lighteval|mmlu|5_2024-02-15T10-00-00.123456.parquet'',
                 ''**/details_lighteval|mmlu:us_history|5_2024-01-15T10-00-00.123456.parquet'']\<rparr>,
      \<lparr>split = ''2024_01_15T10_00_00.123456'',
         path = [''**/details_lighteval|mmlu:us_history|5_2024-01-15T10-00-00.123456.parquet'']\<rparr>] \<and>
   recreate_metadata_card [details_whole_second] =
     Inr [(''lighteval_arc_0'',
            [\<lparr>split = ''2024_01_15T10_00_00.000000'',
               path = [''**/details_lighteval|arc|0_2024-01-15T10-00-00.000000.parquet'']\<rparr>])]"
  by code_simp

text \<open>
  C2, amended.  Let the function complete on a listing, let \<open>last_date\<close> be the last of
  the dates of the details files of a task (the dates that the first loop reads), and
  let the config of the task be written by no other file: every parquet file of the
  listing that writes to it, as a task's config or as a special config, is a details
  file whose task name in the second loop is this task.  Then, in that config, the
  paths under \<^verbatim>\<open>latest\<close> are the paths under the split named with the sanitised
  \<^verbatim>\<open>isoformat\<close> of \<open>last_date\<close> (as multisets, over all the entries of that name), and
  they are exactly the paths \<^verbatim>\<open>**/basename\<close> of the task's files whose sanitised
  directory name is that split name; the directory that \<^verbatim>\<open>save\<close> names after \<open>last_date\<close>
  has that sanitised name.  How many entries carry a split name is not part of the
  statement.
\<close>

theorem latest_is_last_date:
  assumes ok: "recreate_metadata_card files_in_repo = Inr c"
    and last: "is_last_date (task_dates (filter (contains ''.parquet'') files_in_repo) task_name)
                 last_date"
    and own: "\<forall>f \<in> set (filter (contains ''.parquet'') files_in_repo).
                sub_nonword task_name \<in> file_configs f \<longrightarrow>
                \<not> contains ''results_'' f \<and> second_task_name f = task_name"
  shows "paths_of c (sub_nonword task_name) ''latest'' =
           paths_of c (sub_nonword task_name) (sub_nonword_dot (isoformat last_date)) \<and>
         set_mset (paths_of c (sub_nonword task_name) ''latest'') =
           (\<lambda>f. ''**/'' @ basename f) `
             set (task_files (filter (contains ''.parquet'') files_in_repo) task_name
                    (sub_nonword_dot (isoformat last_date))) \<and>
         sub_nonword_dot (date_id last_date) = sub_nonword_dot (isoformat last_date)"
proof -
  let ?pf = "filter (contains ''.parquet'') files_in_repo"
  let ?cfg = "sub_nonword task_name"
  let ?L = "sub_nonword_dot (isoformat last_date)"
  from second_loop_paths [OF ok] obtain reg mx where
    reg: "first_loop [] ?pf = Inr reg"
    and paths: "\<And>config s. paths_of c config s =
                  (\<Sum>f \<leftarrow> ?pf. file_paths (iso_dates reg) mx f config s)"
    by blast
  from registry_last_date [OF reg last] have key: "map_of (iso_dates reg) task_name = Some (isoformat last_date)"
    by (simp add: map_of_iso_dates)
  have detail: "\<not> contains ''results_'' f \<and> second_task_name f = task_name \<and>
              sub_nonword_dot (dirname f) \<noteq> ''latest''"
    if "f \<in> set ?pf" and "?cfg \<in> file_configs f" for f
  proof -
    from own that have d: "\<not> contains ''results_'' f" "second_task_name f = task_name"
      by blast+
    from first_loop_file_date [OF reg that(1) d(1)] obtain dt where "file_date f = Inr dt"
      by blast
    from file_date_not_latest [OF this] d show ?thesis
      by simp
  qed
  have each: "file_paths (iso_dates reg) mx f ?cfg ''latest'' =
              file_paths (iso_dates reg) mx f ?cfg ?L" if "f \<in> set ?pf" for f
  proof (cases "?cfg \<in> file_configs f")
    case False
    then show ?thesis
      by (simp add: file_paths_outside)
  next
    case True
    from detail [OF that True] key show ?thesis
      by (intro file_paths_task) (simp_all add: isoformat_not_latest)
  qed
  have "map (\<lambda>f. file_paths (iso_dates reg) mx f ?cfg ''latest'') ?pf =
        map (\<lambda>f. file_paths (iso_dates reg) mx f ?cfg ?L) ?pf"
    by (rule map_cong [OF refl]) (rule each)
  then have eq: "paths_of c ?cfg ''latest'' = paths_of c ?cfg ?L"
    by (simp only: paths)
  have sub: "p \<in> (\<lambda>f. ''**/'' @ basename f) ` set (task_files ?pf task_name ?L)"
    if "p \<in># paths_of c ?cfg ''latest''" for p
  proof -
    from that obtain f where f: "f \<in> set ?pf"
      and p: "p \<in># file_paths (iso_dates reg) mx f ?cfg ''latest''"
      unfolding paths in_sum_list by blast
    have "?cfg \<in> file_configs f"
    proof (rule ccontr)
      assume "?cfg \<notin> file_configs f"
      from file_paths_outside [OF this, of "iso_dates reg" mx "''latest''"] p show False
        by simp
    qed
    from detail [OF f this] have d: "\<not> contains ''results_'' f" "second_task_name f = task_name"
      "sub_nonword_dot (dirname f) \<noteq> ''latest''"
      by simp_all
    from key d(2) have "map_of (iso_dates reg) (second_task_name f) = Some (isoformat last_date)"
      by simp
    from file_paths_member [OF p d(1) this d(3)] f d(1,2) show ?thesis
      by (simp add: task_files_def)
  qed
  have sup: "''**/'' @ basename f \<in># paths_of c ?cfg ''latest''"
    if "f \<in> set (task_files ?pf task_name ?L)" for f
  proof -
    from that have f: "f \<in> set ?pf" and d: "\<not> contains ''results_'' f"
      "second_task_name f = task_name" "sub_nonword_dot (dirname f) = ?L"
      by (simp_all add: task_files_def)
    from key d(2) have "map_of (iso_dates reg) (second_task_name f) = Some (isoformat last_date)"
      by simp
    from file_paths_own [OF d(1) this d(3), of mx] d(2)
    have "''**/'' @ basename f \<in># file_paths (iso_dates reg) mx f ?cfg ''latest''"
      by simp
    with f show ?thesis
      unfolding paths in_sum_list by blast
  qed
  from sub sup have "set_mset (paths_of c ?cfg ''latest'') =
      (\<lambda>f. ''**/'' @ basename f) ` set (task_files ?pf task_name ?L)"
    by blast
  with eq show ?thesis
    by (simp add: sub_nonword_dot_date_id)
qed

theorem latest_is_last_date_witness:
  "recreate_metadata_card listing_two_runs = Inr card_two_runs \<and>
   paths_of card_two_runs ''mmlu_us_history'' ''latest'' =
     paths_of card_two_runs ''mmlu_us_history'' ''2024_02_15T10_00_00.123456'' \<and>
   set_mset (paths_of card_two_runs ''mmlu_us_history'' ''latest'') =
     {''**/details_mmlu:us_history_2024-02-15T10-00-00.123456.parquet''}"
proof -
  let ?pf = "filter (contains ''.parquet'') listing_two_runs"
  have 1: "recreate_metadata_card listing_two_runs = Inr card_two_runs"
    by code_simp
  have "first_loop [] ?pf = Inr [(''mmlu:us_history'', run_feb)]"
    by code_simp
  from first_loop_last_date [OF this, of "''mmlu:us_history''"]
  have 2: "is_last_date (task_dates ?pf ''mmlu:us_history'') run_feb"
    by simp
  have 3: "\<forall>f \<in> set ?pf. sub_nonword ''mmlu:us_history'' \<in> file_configs f \<longrightarrow>
             \<not> contains ''results_'' f \<and> second_task_name f = ''mmlu:us_history''"
    by code_simp
  have 4: "sub_nonword ''mmlu:us_history'' = ''mmlu_us_history''"
    by code_simp
  have 5: "sub_nonword_dot (isoformat run_feb) = ''2024_02_15T10_00_00.123456''"
    by code_simp
  have 6: "(\<lambda>f. ''**/'' @ basename f) `
             set (task_files ?pf ''mmlu:us_history'' ''2024_02_15T10_00_00.123456'') =
           {''**/details_mmlu:us_history_2024-02-15T10-00-00.123456.parquet''}"
    by code_simp
  note latest = latest_is_last_date [OF 1 2 3]
  from latest [THEN conjunct1] latest [THEN conjunct2, THEN conjunct1] 1 show ?thesis
    by (simp only: 4 5 6 simp_thms)
qed

end
